theory Spec2Isabelle
  imports Main "HOL-Library.Monad_Syntax"
begin

section \<open>The abstract syntax tree\<close>

text \<open>
  The analyzer of \<^verbatim>\<open>HLSLAnalyzer.cpp\<close> walks a tree of heap objects and writes into
  them, both through owning child pointers and through the non-owning \<^verbatim>\<open>AST*\<close> it keeps in
  its symbol table and in \<^verbatim>\<open>VarType::symbolRef\<close>. The shape of the tree is never changed by
  the walk, so the shape is a datatype and every field the walk writes (flags, alias names,
  symbol references) lives in a store indexed by the address of its node. A node that
  owns such a field, or that is handed to \<^verbatim>\<open>Error\<close>, carries its address.
\<close>

type_synonym addr = nat

text \<open>
  Modelled from the spec: the enumeration \<^verbatim>\<open>AST::Types\<close> of \<^verbatim>\<open>HLSLTree.h\<close> (not among the
  sources), with the node variants the specification lists; \<open>Types_Other\<close> stands for the
  expression, statement and declaration variants that are not decorated one by one.
\<close>

datatype Types =
    Types_Program | Types_CodeBlock | Types_FunctionCall | Types_Structure
  | Types_FunctionDecl | Types_BufferDecl | Types_StructDecl | Types_VarDeclStmnt
  | Types_CtrlTransferStmnt | Types_PackOffset | Types_VarSemantic | Types_VarType
  | Types_VarIdent | Types_VarDecl | Types_Other

text \<open>A non-null \<^verbatim>\<open>AST*\<close>: the dynamic type of the node it points to (what \<^verbatim>\<open>Type()\<close>
  returns) and the node's address. A nullable pointer is an \<open>ASTRef option\<close>.\<close>

datatype ASTRef = ASTRef (Type: Types) (address: addr)

text \<open>
  Modelled from the spec: the expression variants of \<^verbatim>\<open>HLSLTree.h\<close> and their visit
  procedures (the file has only \<^verbatim>\<open>//...\<close> under "Expressions"; the base visitor is not among
  the sources). The specification calls them "not individually decorated" and the walk "a
  single top-down, depth-first traversal of the whole program tree", so an expression is
  what the walk reaches through it: a function call, a variable identifier, or a list of
  sub-expressions (empty for a literal), visited in order with no decoration of their own.
\<close>

datatype VarIdent = VarIdent string "Expr list" "VarIdent option"
  and FunctionCall = FunctionCall VarIdent "Expr list"
  and Expr = CallExpr FunctionCall | IdentExpr VarIdent | OtherExpr "Expr list"

datatype PackOffset = PackOffset string

datatype VarSemantic = VarSemantic string "PackOffset option"

datatype VarDecl = VarDecl string "Expr list" "VarSemantic list" "Expr option"

text \<open>\<open>VarType a baseType structType\<close>, \<open>Structure a name members\<close> and
  \<open>VarDeclStmnt a varType varDecls\<close>; \<open>symbolRef\<close>, \<open>flags\<close> and \<open>aliasName\<close> are in the
  store.\<close>

datatype VarType = VarType addr string "Structure option"
  and Structure = Structure addr string "VarDeclStmnt list"
  and VarDeclStmnt = VarDeclStmnt addr VarType "VarDecl list"

text \<open>
  Modelled from the spec: the statement variants other than \<^verbatim>\<open>VarDeclStmnt\<close> and
  \<^verbatim>\<open>CtrlTransferStmnt\<close> have no visit procedure in the file. As for expressions, a statement
  is what the walk reaches through it: a nested code block, an expression, or a list of
  sub-statements.
\<close>

datatype Stmnt =
    StmntVarDecl VarDeclStmnt
  | CtrlTransferStmnt string
  | StmntCodeBlock CodeBlock
  | StmntExpr Expr
  | OtherStmnt "Stmnt list"
  and CodeBlock = CodeBlock "Stmnt list"

text \<open>\<open>FunctionDecl a name attribs returnType parameters codeBlock\<close>; the body is absent
  (a null pointer) for a declaration without one. \<open>OtherGlobalDecl\<close> stands for the global
  declarations that have no visit procedure in the file; visiting one changes nothing.\<close>

datatype FunctionDecl =
  FunctionDecl addr string "FunctionCall list" VarType "VarDeclStmnt list" "CodeBlock option"

datatype BufferDecl = BufferDecl addr string "VarDeclStmnt list"

datatype StructDecl = StructDecl Structure

datatype GlobalDecl =
    GlobalFunctionDecl FunctionDecl
  | GlobalBufferDecl BufferDecl
  | GlobalStructDecl StructDecl
  | OtherGlobalDecl

datatype Program = Program addr "GlobalDecl list"

subsection \<open>Flags\<close>

datatype ProgramFlag = Program_mulIntrinsicUsed | Program_interlockedIntrinsicsUsed

datatype StructureFlag = Structure_isShaderInput | Structure_isShaderOutput

datatype FunctionDeclFlag = FunctionDecl_isEntryPoint | FunctionDecl_isUsed

datatype VarDeclStmntFlag = VarDeclStmnt_isShaderInput | VarDeclStmnt_isShaderOutput

datatype IntrinsicClasses = Interlocked

section \<open>The scoped symbol table\<close>

text \<open>
  Modelled from the spec: the class \<^verbatim>\<open>SymbolTable\<close> behind \<^verbatim>\<open>symTable_\<close> is not among the
  sources. Section 4.1 of the specification describes it as a stack of frames (innermost
  first here), each mapping identifiers to the declaring node.
  \<^item> \<open>open_scope\<close> pushes a new, empty frame; \<open>close_scope\<close> pops the innermost one.
  \<^item> \<open>register\<close> inserts into the innermost frame when the name is not there; when it
    is, the predicate is evaluated on the existing entry: true updates the slot, false
    fails with the "duplicate symbol" condition. Outer frames are not searched.
  \<^item> \<open>fetch\<close> searches the frames from innermost to outermost.
  The specification says that a frame is always open and fixes nothing for an empty stack:
  there registration fails (\<open>NoActiveScope\<close>) and closing does nothing.
\<close>

type_synonym Scope = "string \<rightharpoonup> ASTRef"

type_synonym SymbolTable = "Scope list"

datatype SymbolTableError = DuplicateSymbol string | NoActiveScope

definition SymbolTable_OpenScope :: "SymbolTable \<Rightarrow> SymbolTable" where
  "SymbolTable_OpenScope tbl = Map.empty # tbl"

definition SymbolTable_CloseScope :: "SymbolTable \<Rightarrow> SymbolTable" where
  "SymbolTable_CloseScope tbl = (case tbl of [] \<Rightarrow> [] | frame # outer \<Rightarrow> outer)"

fun SymbolTable_Register ::
  "string \<Rightarrow> ASTRef \<Rightarrow> (ASTRef \<Rightarrow> bool) \<Rightarrow> SymbolTable \<Rightarrow> SymbolTableError + SymbolTable" where
  "SymbolTable_Register ident symbol overrideProc [] = Inl NoActiveScope"
| "SymbolTable_Register ident symbol overrideProc (frame # outer) =
     (case frame ident of
        None \<Rightarrow> Inr (frame(ident \<mapsto> symbol) # outer)
      | Some existing \<Rightarrow>
          if overrideProc existing then Inr (frame(ident \<mapsto> symbol) # outer)
          else Inl (DuplicateSymbol ident))"

fun SymbolTable_Fetch :: "SymbolTable \<Rightarrow> string \<Rightarrow> ASTRef option" where
  "SymbolTable_Fetch [] ident = None"
| "SymbolTable_Fetch (frame # outer) ident =
     (case frame ident of Some symbol \<Rightarrow> Some symbol | None \<Rightarrow> SymbolTable_Fetch outer ident)"

text \<open>Modelled from the spec: the text of the exception (\<^verbatim>\<open>err.what()\<close>), which the
  specification calls the "duplicate symbol" condition.\<close>

fun what :: "SymbolTableError \<Rightarrow> string" where
  "what (DuplicateSymbol ident) = ''duplicate symbol''"
| "what NoActiveScope = ''no active scope''"

section \<open>The analyzer and the store\<close>

text \<open>
  The members of \<^verbatim>\<open>HLSLAnalyzer\<close> (a constant cannot end in an underscore, so
  \<^verbatim>\<open>hasErrors_\<close> is \<open>hasErrors\<close>) and, below them, the fields of the tree that the walk
  reads and writes, by node address. \<open>reported\<close> is the sequence of calls of \<^verbatim>\<open>Error\<close>
  (message and node): what a configured logger receives, one formatted line per
  call. The targets are opaque enumerations, only stored.
\<close>

record analyzer =
  entryPoint :: string
  shaderTarget :: nat
  shaderVersion :: nat
  hasErrors :: bool
  program :: "addr option"
  isInsideEntryPoint :: bool
  symTable :: SymbolTable
  reported :: "(string \<times> addr option) list"
  programFlags :: "addr \<Rightarrow> ProgramFlag set"
  structureFlags :: "addr \<Rightarrow> StructureFlag set"
  aliasName :: "addr \<Rightarrow> string"
  functionDeclFlags :: "addr \<Rightarrow> FunctionDeclFlag set"
  varDeclStmntFlags :: "addr \<Rightarrow> VarDeclStmntFlag set"
  symbolRef :: "addr \<Rightarrow> ASTRef option"

text \<open>\<^verbatim>\<open>EstablishMaps\<close>: the table the constructor stores in \<^verbatim>\<open>intrinsicMap_\<close>; nothing
  writes to it afterwards.\<close>

definition EstablishMaps :: "(string \<times> IntrinsicClasses) list" where
  "EstablishMaps =
    [ (''InterlockedAdd'', Interlocked),
      (''InterlockedAnd'', Interlocked),
      (''InterlockedOr'', Interlocked),
      (''InterlockedXor'', Interlocked),
      (''InterlockedMin'', Interlocked),
      (''InterlockedMax'', Interlocked),
      (''InterlockedCompareExchange'', Interlocked),
      (''InterlockedExchange'', Interlocked) ]"

definition intrinsicMap :: "string \<rightharpoonup> IntrinsicClasses" where
  "intrinsicMap = map_of EstablishMaps"

definition Error :: "string \<Rightarrow> addr option \<Rightarrow> analyzer \<Rightarrow> analyzer" where
  "Error msg ast st = st\<lparr>hasErrors := True, reported := reported st @ [(msg, ast)]\<rparr>"

definition OpenScope :: "analyzer \<Rightarrow> analyzer" where
  "OpenScope st = st\<lparr>symTable := SymbolTable_OpenScope (symTable st)\<rparr>"

definition CloseScope :: "analyzer \<Rightarrow> analyzer" where
  "CloseScope st = st\<lparr>symTable := SymbolTable_CloseScope (symTable st)\<rparr>"

definition Register :: "string \<Rightarrow> ASTRef \<Rightarrow> (ASTRef \<Rightarrow> bool) \<Rightarrow> analyzer \<Rightarrow> analyzer" where
  "Register ident ast overrideProc st =
     (case SymbolTable_Register ident ast overrideProc (symTable st) of
        Inr tbl \<Rightarrow> st\<lparr>symTable := tbl\<rparr>
      | Inl err \<Rightarrow> Error (what err) (Some (address ast)) st)"

definition Fetch :: "analyzer \<Rightarrow> string \<Rightarrow> ASTRef option" where
  "Fetch st ident = SymbolTable_Fetch (symTable st) ident"

text \<open>\<^verbatim>\<open>structType->flags << structFlag\<close> and \<^verbatim>\<open>program_->flags << flag\<close>; the second
  dereferences \<^verbatim>\<open>program_\<close>, and a null pointer there is undefined behaviour (\<open>None\<close>).\<close>

definition addStructureFlag :: "addr \<Rightarrow> StructureFlag \<Rightarrow> analyzer \<Rightarrow> analyzer" where
  "addStructureFlag a f st =
     st\<lparr>structureFlags := (structureFlags st)(a := insert f (structureFlags st a))\<rparr>"

definition addProgramFlag :: "ProgramFlag \<Rightarrow> analyzer \<Rightarrow> analyzer option" where
  "addProgramFlag f st =
     (case program st of
        None \<Rightarrow> None
      | Some p \<Rightarrow> Some (st\<lparr>programFlags := (programFlags st)(p := insert f (programFlags st p))\<rparr>))"

text \<open>
  Modelled from the spec: \<^verbatim>\<open>FullVarIdent\<close> is declared in \<^verbatim>\<open>HLSLTree.h\<close>. It gives the
  full name of an identifier chain; the chained identifiers (member accesses) are joined
  with dots.
\<close>

fun FullVarIdent :: "VarIdent \<Rightarrow> string" where
  "FullVarIdent (VarIdent ident arrayIndices None) = ident"
| "FullVarIdent (VarIdent ident arrayIndices (Some next)) = ident @ ''.'' @ FullVarIdent next"

section \<open>Decoration of the entry point's inputs and outputs\<close>

fun VarDecl_name :: "VarDecl \<Rightarrow> string" where
  "VarDecl_name (VarDecl name arrayDims semantics initializer) = name"

fun Structure_address :: "Structure \<Rightarrow> addr" where
  "Structure_address (Structure a name members) = a"

fun VarType_address :: "VarType \<Rightarrow> addr" where
  "VarType_address (VarType a baseType structType) = a"

fun VarType_structType :: "VarType \<Rightarrow> Structure option" where
  "VarType_structType (VarType a baseType structType) = structType"

text \<open>\<^verbatim>\<open>DecorateEntryInOut(VarDeclStmnt*, bool)\<close>. The dynamic cast of a symbol whose
  \<^verbatim>\<open>Type()\<close> is \<^verbatim>\<open>Structure\<close> gives the structure at the symbol's address.\<close>

fun DecorateEntryInOut_VarDeclStmnt :: "VarDeclStmnt \<Rightarrow> bool \<Rightarrow> analyzer \<Rightarrow> analyzer" where
  "DecorateEntryInOut_VarDeclStmnt (VarDeclStmnt a varType varDecls) isInput st =
     (let structFlag = (if isInput then Structure_isShaderInput else Structure_isShaderOutput);
          st1 = st\<lparr>varDeclStmntFlags := (varDeclStmntFlags st)
                  (a := insert (if isInput then VarDeclStmnt_isShaderInput
                                else VarDeclStmnt_isShaderOutput) (varDeclStmntFlags st a))\<rparr>;
          st2 = (case VarType_structType varType of
                   Some structType \<Rightarrow> addStructureFlag (Structure_address structType) structFlag st1
                 | None \<Rightarrow> st1)
      in case symbolRef st2 (VarType_address varType) of
           None \<Rightarrow> st2
         | Some symbol \<Rightarrow>
             if Type symbol = Types_Structure then
               (let st3 = addStructureFlag (address symbol) structFlag st2
                in case varDecls of
                     [] \<Rightarrow> st3
                   | front # rest \<Rightarrow>
                       st3\<lparr>aliasName := (aliasName st3)(address symbol := VarDecl_name front)\<rparr>)
             else st2)"

text \<open>\<^verbatim>\<open>DecorateEntryInOut(VarType*, bool)\<close>.\<close>

fun DecorateEntryInOut_VarType :: "VarType \<Rightarrow> bool \<Rightarrow> analyzer \<Rightarrow> analyzer" where
  "DecorateEntryInOut_VarType (VarType a baseType structType) isInput st =
     (let structFlag = (if isInput then Structure_isShaderInput else Structure_isShaderOutput);
          st1 = (case structType of
                   Some s \<Rightarrow> addStructureFlag (Structure_address s) structFlag st
                 | None \<Rightarrow> st)
      in case symbolRef st1 a of
           None \<Rightarrow> st1
         | Some symbol \<Rightarrow>
             if Type symbol = Types_Structure
             then addStructureFlag (address symbol) structFlag st1
             else st1)"

section \<open>The visit procedures\<close>

text \<open>
  Every procedure takes the node and the state and returns the state after the visit;
  \<open>None\<close> is undefined behaviour of the C++ (after which nothing is known). \<^verbatim>\<open>Visit(x)\<close> of
  a null child does nothing.
\<close>

fun VisitVarIdent :: "VarIdent \<Rightarrow> analyzer \<Rightarrow> analyzer option"
  and VisitFunctionCall :: "FunctionCall \<Rightarrow> analyzer \<Rightarrow> analyzer option"
  and VisitExpr :: "Expr \<Rightarrow> analyzer \<Rightarrow> analyzer option"
  and VisitExprs :: "Expr list \<Rightarrow> analyzer \<Rightarrow> analyzer option" where
  "VisitVarIdent (VarIdent ident arrayIndices next) st =
     do { st1 \<leftarrow> VisitExprs arrayIndices st;
          case next of None \<Rightarrow> Some st1 | Some n \<Rightarrow> VisitVarIdent n st1 }"
| "VisitFunctionCall (FunctionCall name arguments) st =
     do { st1 \<leftarrow> (if FullVarIdent name = ''mul'' then addProgramFlag Program_mulIntrinsicUsed st
                  else case intrinsicMap (FullVarIdent name) of
                         None \<Rightarrow> Some st
                       | Some Interlocked \<Rightarrow> addProgramFlag Program_interlockedIntrinsicsUsed st);
          VisitExprs arguments st1 }"
| "VisitExpr (CallExpr call) st = VisitFunctionCall call st"
| "VisitExpr (IdentExpr varIdent) st = VisitVarIdent varIdent st"
| "VisitExpr (OtherExpr subExprs) st = VisitExprs subExprs st"
| "VisitExprs [] st = Some st"
| "VisitExprs (e # es) st = do { st1 \<leftarrow> VisitExpr e st; VisitExprs es st1 }"

fun VisitFunctionCalls :: "FunctionCall list \<Rightarrow> analyzer \<Rightarrow> analyzer option" where
  "VisitFunctionCalls [] st = Some st"
| "VisitFunctionCalls (c # cs) st = do { st1 \<leftarrow> VisitFunctionCall c st; VisitFunctionCalls cs st1 }"

definition VisitPackOffset :: "PackOffset \<Rightarrow> analyzer \<Rightarrow> analyzer option" where
  "VisitPackOffset ast st = Some st"

definition VisitVarSemantic :: "VarSemantic \<Rightarrow> analyzer \<Rightarrow> analyzer option" where
  "VisitVarSemantic ast st = Some st"

fun VisitVarSemantics :: "VarSemantic list \<Rightarrow> analyzer \<Rightarrow> analyzer option" where
  "VisitVarSemantics [] st = Some st"
| "VisitVarSemantics (s # ss) st = do { st1 \<leftarrow> VisitVarSemantic s st; VisitVarSemantics ss st1 }"

fun VisitVarDecl :: "VarDecl \<Rightarrow> analyzer \<Rightarrow> analyzer option" where
  "VisitVarDecl (VarDecl name arrayDims semantics initializer) st =
     do { st1 \<leftarrow> VisitExprs arrayDims st;
          st2 \<leftarrow> VisitVarSemantics semantics st1;
          case initializer of None \<Rightarrow> Some st2 | Some e \<Rightarrow> VisitExpr e st2 }"

fun VisitVarDecls :: "VarDecl list \<Rightarrow> analyzer \<Rightarrow> analyzer option" where
  "VisitVarDecls [] st = Some st"
| "VisitVarDecls (d # ds) st = do { st1 \<leftarrow> VisitVarDecl d st; VisitVarDecls ds st1 }"

text \<open>
  In \<^verbatim>\<open>VisitVarDeclStmnt\<close> the alias is read with \<^verbatim>\<open>ast->varDecls.front()\<close>; on an empty
  vector that is undefined behaviour.
\<close>

fun VisitVarType :: "VarType \<Rightarrow> analyzer \<Rightarrow> analyzer option"
  and VisitStructure :: "Structure \<Rightarrow> analyzer \<Rightarrow> analyzer option"
  and VisitVarDeclStmnt :: "VarDeclStmnt \<Rightarrow> analyzer \<Rightarrow> analyzer option"
  and VisitVarDeclStmnts :: "VarDeclStmnt list \<Rightarrow> analyzer \<Rightarrow> analyzer option" where
  "VisitVarType (VarType a baseType structType) st =
     (if baseType \<noteq> [] then
        (case Fetch st baseType of
           Some symbol \<Rightarrow> Some (st\<lparr>symbolRef := (symbolRef st)(a \<mapsto> symbol)\<rparr>)
         | None \<Rightarrow> Some st)
      else case structType of
             Some s \<Rightarrow> VisitStructure s st
           | None \<Rightarrow> Some (Error ''missing variable type'' (Some a) st))"
| "VisitStructure (Structure a name members) st =
     VisitVarDeclStmnts members
       (if name \<noteq> [] then
          Register name (ASTRef Types_Structure a) (\<lambda>symbol. Type symbol = Types_StructDecl) st
        else st)"
| "VisitVarDeclStmnt (VarDeclStmnt a varType varDecls) st =
     do { st1 \<leftarrow> VisitVarType varType st;
          st2 \<leftarrow> VisitVarDecls varDecls st1;
          if isInsideEntryPoint st2 \<and> varDecls = [] then
            (case symbolRef st2 (VarType_address varType) of
               None \<Rightarrow> Some st2
             | Some symbol \<Rightarrow>
                 if Type symbol = Types_Structure then
                   (if Structure_isShaderOutput \<in> structureFlags st2 (address symbol)
                       \<and> aliasName st2 (address symbol) = [] then
                      (case varDecls of
                         [] \<Rightarrow> None
                       | front # rest \<Rightarrow>
                           Some (st2\<lparr>aliasName :=
                                   (aliasName st2)(address symbol := VarDecl_name front)\<rparr>))
                    else Some st2)
                 else Some st2)
          else Some st2 }"
| "VisitVarDeclStmnts [] st = Some st"
| "VisitVarDeclStmnts (d # ds) st = do { st1 \<leftarrow> VisitVarDeclStmnt d st; VisitVarDeclStmnts ds st1 }"

definition VisitCtrlTransferStmnt :: "string \<Rightarrow> analyzer \<Rightarrow> analyzer option" where
  "VisitCtrlTransferStmnt ast st = Some st"

fun VisitStmnt :: "Stmnt \<Rightarrow> analyzer \<Rightarrow> analyzer option"
  and VisitStmnts :: "Stmnt list \<Rightarrow> analyzer \<Rightarrow> analyzer option"
  and VisitCodeBlock :: "CodeBlock \<Rightarrow> analyzer \<Rightarrow> analyzer option" where
  "VisitStmnt (StmntVarDecl d) st = VisitVarDeclStmnt d st"
| "VisitStmnt (CtrlTransferStmnt instr) st = VisitCtrlTransferStmnt instr st"
| "VisitStmnt (StmntCodeBlock b) st = VisitCodeBlock b st"
| "VisitStmnt (StmntExpr e) st = VisitExpr e st"
| "VisitStmnt (OtherStmnt subStmnts) st = VisitStmnts subStmnts st"
| "VisitStmnts [] st = Some st"
| "VisitStmnts (s # ss) st = do { st1 \<leftarrow> VisitStmnt s st; VisitStmnts ss st1 }"
| "VisitCodeBlock (CodeBlock stmnts) st =
     do { st1 \<leftarrow> VisitStmnts stmnts (OpenScope st);
          Some (CloseScope st1) }"

fun DecorateParameters :: "VarDeclStmnt list \<Rightarrow> analyzer \<Rightarrow> analyzer" where
  "DecorateParameters [] st = st"
| "DecorateParameters (param # params) st =
     DecorateParameters params (DecorateEntryInOut_VarDeclStmnt param True st)"

fun VisitFunctionDecl :: "FunctionDecl \<Rightarrow> analyzer \<Rightarrow> analyzer option" where
  "VisitFunctionDecl (FunctionDecl a name attribs returnType parameters codeBlock) st =
     do { st1 \<leftarrow> VisitFunctionCalls attribs
                  (Register name (ASTRef Types_FunctionDecl a)
                     (\<lambda>symbol. Type symbol = Types_FunctionDecl) st);
          st2 \<leftarrow> VisitVarType returnType st1;
          st3 \<leftarrow> VisitVarDeclStmnts parameters st2;
          let isEntryPoint = (name = entryPoint st3);
              st4 = (if isEntryPoint then
                       DecorateParameters parameters
                         (DecorateEntryInOut_VarType returnType False
                            (st3\<lparr>functionDeclFlags := (functionDeclFlags st3)
                               (a := insert FunctionDecl_isUsed
                                  (insert FunctionDecl_isEntryPoint (functionDeclFlags st3 a)))\<rparr>))
                     else st3);
              st5 = st4\<lparr>isInsideEntryPoint := isEntryPoint\<rparr>
          in do { st6 \<leftarrow> (case codeBlock of None \<Rightarrow> Some st5 | Some b \<Rightarrow> VisitCodeBlock b st5);
                  Some (st6\<lparr>isInsideEntryPoint := False\<rparr>) } }"

fun VisitBufferDecl :: "BufferDecl \<Rightarrow> analyzer \<Rightarrow> analyzer option" where
  "VisitBufferDecl (BufferDecl a bufferType members) st =
     VisitVarDeclStmnts members
       (if bufferType \<noteq> ''cbuffer'' then
          Error (''buffer type '' @ [CHR 0x22] @ bufferType @ [CHR 0x22] @ '' currently not supported'')
            (Some a) st
        else st)"

fun VisitStructDecl :: "StructDecl \<Rightarrow> analyzer \<Rightarrow> analyzer option" where
  "VisitStructDecl (StructDecl structure) st = VisitStructure structure st"

fun VisitGlobalDecl :: "GlobalDecl \<Rightarrow> analyzer \<Rightarrow> analyzer option" where
  "VisitGlobalDecl (GlobalFunctionDecl f) st = VisitFunctionDecl f st"
| "VisitGlobalDecl (GlobalBufferDecl b) st = VisitBufferDecl b st"
| "VisitGlobalDecl (GlobalStructDecl s) st = VisitStructDecl s st"
| "VisitGlobalDecl OtherGlobalDecl st = Some st"

fun VisitGlobalDecls :: "GlobalDecl list \<Rightarrow> analyzer \<Rightarrow> analyzer option" where
  "VisitGlobalDecls [] st = Some st"
| "VisitGlobalDecls (d # ds) st = do { st1 \<leftarrow> VisitGlobalDecl d st; VisitGlobalDecls ds st1 }"

fun VisitProgram :: "Program \<Rightarrow> analyzer \<Rightarrow> analyzer option" where
  "VisitProgram (Program a globalDecls) st = VisitGlobalDecls globalDecls st"

fun Program_address :: "Program \<Rightarrow> addr" where
  "Program_address (Program a globalDecls) = a"

text \<open>\<^verbatim>\<open>DecorateAST\<close>: the result is the returned boolean and the state after the call.\<close>

definition DecorateAST ::
  "analyzer \<Rightarrow> Program option \<Rightarrow> string \<Rightarrow> nat \<Rightarrow> nat \<Rightarrow> (bool \<times> analyzer) option" where
  "DecorateAST st prog entry target version =
     (case prog of
        None \<Rightarrow> Some (False, st)
      | Some p \<Rightarrow>
          do { st1 \<leftarrow> VisitProgram p
                        (st\<lparr>entryPoint := entry, shaderTarget := target,
                            shaderVersion := version, hasErrors := False,
                            program := Some (Program_address p)\<rparr>);
               Some (\<not> hasErrors st1, st1) })"


section \<open>A fresh analyzer and sample programs\<close>

text \<open>Modelled from the spec: the member defaults of \<^verbatim>\<open>HLSLAnalyzer.h\<close> and the nodes of
  \<^verbatim>\<open>HLSLTree.h\<close> as the parser leaves them. An analyzer as constructed, beside a fresh
  tree: nothing is decorated, no symbol is registered and the global frame is open.\<close>

definition newAnalyzer :: analyzer where
  "newAnalyzer =
     \<lparr> entryPoint = [], shaderTarget = 0, shaderVersion = 0, hasErrors = False,
       program = None, isInsideEntryPoint = False, symTable = [Map.empty], reported = [],
       programFlags = (\<lambda>a. {}), structureFlags = (\<lambda>a. {}), aliasName = (\<lambda>a. []),
       functionDeclFlags = (\<lambda>a. {}), varDeclStmntFlags = (\<lambda>a. {}),
       symbolRef = (\<lambda>a. None) \<rparr>"

text \<open>\<^verbatim>\<open>struct VIn {}; void main(VIn a, VIn b) {}\<close>\<close>

definition paramA :: VarDeclStmnt where
  "paramA = VarDeclStmnt 4 (VarType 5 ''VIn'' None) [VarDecl ''a'' [] [] None]"

definition paramB :: VarDeclStmnt where
  "paramB = VarDeclStmnt 6 (VarType 7 ''VIn'' None) [VarDecl ''b'' [] [] None]"

definition programTwoInputs :: Program where
  "programTwoInputs = Program 0
     [ GlobalStructDecl (StructDecl (Structure 1 ''VIn'' [])),
       GlobalFunctionDecl
         (FunctionDecl 2 ''main'' [] (VarType 3 ''void'' None) [paramA, paramB]
            (Some (CodeBlock []))) ]"

text \<open>The state in which both parameter types are resolved to the structure at address 1.\<close>

definition resolvedInputs :: analyzer where
  "resolvedInputs =
     newAnalyzer\<lparr>symbolRef := (\<lambda>a. if a = 5 \<or> a = 7 then Some (ASTRef Types_Structure 1) else None)\<rparr>"

text \<open>\<^verbatim>\<open>struct VOut {}; VOut main() { VOut; }\<close>: the body holds a declaration statement of
  type \<^verbatim>\<open>VOut\<close> with no declarator.\<close>

definition programBareOutput :: Program where
  "programBareOutput = Program 0
     [ GlobalStructDecl (StructDecl (Structure 1 ''VOut'' [])),
       GlobalFunctionDecl
         (FunctionDecl 2 ''main'' [] (VarType 3 ''VOut'' None) []
            (Some (CodeBlock [StmntVarDecl (VarDeclStmnt 4 (VarType 5 ''VOut'' None) [])]))) ]"

section \<open>Relations respected by the walk\<close>

text \<open>
  Many facts about the walk say that the state after a visit is related to the state before
  it by a relation that holds across every single write. The predicates below name the
  writes of each layer of visit procedures: expressions only add program flags; types,
  structures and declaration statements also report errors, register structures and set
  symbol references; statements open and close scopes; the decoration of the entry point's inputs
  and outputs sets structure flags, statement flags and alias names; a function
  declaration also sets its own flags and the marker of the entry point's body.
\<close>

definition exprInvariant :: "(analyzer \<Rightarrow> analyzer \<Rightarrow> bool) \<Rightarrow> bool" where
  "exprInvariant R \<longleftrightarrow>
     (\<forall>s. R s s) \<and> (\<forall>a b c. R a b \<longrightarrow> R b c \<longrightarrow> R a c) \<and>
     (\<forall>s r. R s (s\<lparr>programFlags := r\<rparr>))"

definition typeInvariant :: "(analyzer \<Rightarrow> analyzer \<Rightarrow> bool) \<Rightarrow> bool" where
  "typeInvariant R \<longleftrightarrow>
     exprInvariant R \<and>
     (\<forall>s m a. R s (Error m a s)) \<and>
     (\<forall>s n a. R s (Register n (ASTRef Types_Structure a)
                     (\<lambda>symbol. Type symbol = Types_StructDecl) s)) \<and>
     (\<forall>s r. R s (s\<lparr>symbolRef := r\<rparr>))"

definition walkInvariant :: "(analyzer \<Rightarrow> analyzer \<Rightarrow> bool) \<Rightarrow> bool" where
  "walkInvariant R \<longleftrightarrow> typeInvariant R \<and> (\<forall>s t. R s (s\<lparr>symTable := t\<rparr>))"

definition decorInvariant :: "(analyzer \<Rightarrow> analyzer \<Rightarrow> bool) \<Rightarrow> bool" where
  "decorInvariant R \<longleftrightarrow>
     (\<forall>s. R s s) \<and> (\<forall>a b c. R a b \<longrightarrow> R b c \<longrightarrow> R a c) \<and>
     (\<forall>s a f. R s (addStructureFlag a f s)) \<and>
     (\<forall>s a f. R s (s\<lparr>varDeclStmntFlags := (varDeclStmntFlags s)
                       (a := insert f (varDeclStmntFlags s a))\<rparr>)) \<and>
     (\<forall>s r. R s (s\<lparr>aliasName := r\<rparr>))"

definition passInvariant :: "(analyzer \<Rightarrow> analyzer \<Rightarrow> bool) \<Rightarrow> bool" where
  "passInvariant R \<longleftrightarrow>
     walkInvariant R \<and>
     (\<forall>s a. R s (s\<lparr>functionDeclFlags := (functionDeclFlags s)
                     (a := insert FunctionDecl_isUsed
                        (insert FunctionDecl_isEntryPoint (functionDeclFlags s a)))\<rparr>)) \<and>
     (\<forall>s a f. R s (addStructureFlag a f s)) \<and>
     (\<forall>s a f. R s (s\<lparr>varDeclStmntFlags := (varDeclStmntFlags s)
                       (a := insert f (varDeclStmntFlags s a))\<rparr>)) \<and>
     (\<forall>s r. R s (s\<lparr>aliasName := r\<rparr>)) \<and>
     (\<forall>s b. R s (s\<lparr>isInsideEntryPoint := b\<rparr>))"

text \<open>The reports only grow, and the error flag is set exactly when it was set before
  or a report was added.\<close>

definition errorsAccumulate :: "analyzer \<Rightarrow> analyzer \<Rightarrow> bool" where
  "errorsAccumulate st st' \<longleftrightarrow>
     (\<exists>new. reported st' = reported st @ new \<and> (hasErrors st' \<longleftrightarrow> hasErrors st \<or> new \<noteq> []))"

text \<open>\<^verbatim>\<open>tbuffer { float4 color; }\<close>\<close>

definition programTBuffer :: Program where
  "programTBuffer = Program 0
     [ GlobalBufferDecl
         (BufferDecl 1 ''tbuffer''
            [VarDeclStmnt 2 (VarType 3 ''float4'' None) [VarDecl ''color'' [] [] None]]) ]"

section \<open>Relations on the symbol table\<close>

text \<open>A visit below a code block may only change the innermost frame: the number of
  frames and the outer frames stay.\<close>

definition scopesKept :: "analyzer \<Rightarrow> analyzer \<Rightarrow> bool" where
  "scopesKept st st' \<longleftrightarrow>
     length (symTable st') = length (symTable st) \<and> tl (symTable st') = tl (symTable st)"

text \<open>An entry of the innermost frame is still there, over the same outer frames.\<close>

definition entryKept :: "string \<Rightarrow> ASTRef \<Rightarrow> analyzer \<Rightarrow> analyzer \<Rightarrow> bool" where
  "entryKept ident symbol st st' \<longleftrightarrow>
     (\<forall>frame outer. symTable st = frame # outer \<and> frame ident = Some symbol \<longrightarrow>
        (\<exists>frame'. symTable st' = frame' # outer \<and> frame' ident = Some symbol))"

text \<open>A block that declares an inline structure \<^verbatim>\<open>S\<close>, visited where the enclosing scope
  already holds structures \<^verbatim>\<open>S\<close> and \<^verbatim>\<open>T\<close>.\<close>

definition blockShadowing :: "Stmnt list" where
  "blockShadowing =
     [StmntVarDecl (VarDeclStmnt 10 (VarType 11 [] (Some (Structure 12 ''S'' []))) [])]"

definition outerScope :: analyzer where
  "outerScope = newAnalyzer\<lparr>symTable :=
     [[''S'' \<mapsto> ASTRef Types_Structure 1, ''T'' \<mapsto> ASTRef Types_Structure 2]]\<rparr>"

text \<open>\<^verbatim>\<open>void S(); struct T {};\<close>\<close>

definition twoStructures :: "GlobalDecl list" where
  "twoStructures =
     [ GlobalFunctionDecl (FunctionDecl 20 ''S'' [] (VarType 21 ''void'' None) [] None),
       GlobalStructDecl (StructDecl (Structure 22 ''T'' [])) ]"

section \<open>One more report\<close>

text \<open>The state \<open>st\<close> with the error flag set and the report \<open>e\<close> put in after the first
  \<open>n\<close> reports.\<close>

definition insertReport :: "nat \<Rightarrow> string \<times> addr option \<Rightarrow> analyzer \<Rightarrow> analyzer" where
  "insertReport n e st =
     st\<lparr>hasErrors := True, reported := take n (reported st) @ e # drop n (reported st)\<rparr>"

section \<open>The function calls of a tree\<close>

text \<open>
  The full names of the function calls in a tree, in the order of the walk. With
  \<open>everywhere\<close> these are all the calls of the tree. Without it they are the calls that
  the walk visits: \<^verbatim>\<open>VisitFunctionCall\<close> visits the arguments of a call but not its name,
  so the calls inside the identifier that names a call (in its array indices) are left
  out, and \<^verbatim>\<open>VisitVarType\<close> visits an inline structure only when the type has no base
  type name.
\<close>

fun VarIdent_calls :: "bool \<Rightarrow> VarIdent \<Rightarrow> string list"
  and FunctionCall_calls :: "bool \<Rightarrow> FunctionCall \<Rightarrow> string list"
  and Expr_calls :: "bool \<Rightarrow> Expr \<Rightarrow> string list"
  and Exprs_calls :: "bool \<Rightarrow> Expr list \<Rightarrow> string list" where
  "VarIdent_calls everywhere (VarIdent ident arrayIndices next) =
     Exprs_calls everywhere arrayIndices @
     (case next of None \<Rightarrow> [] | Some n \<Rightarrow> VarIdent_calls everywhere n)"
| "FunctionCall_calls everywhere (FunctionCall name arguments) =
     FullVarIdent name # (if everywhere then VarIdent_calls everywhere name else []) @
     Exprs_calls everywhere arguments"
| "Expr_calls everywhere (CallExpr call) = FunctionCall_calls everywhere call"
| "Expr_calls everywhere (IdentExpr varIdent) = VarIdent_calls everywhere varIdent"
| "Expr_calls everywhere (OtherExpr subExprs) = Exprs_calls everywhere subExprs"
| "Exprs_calls everywhere [] = []"
| "Exprs_calls everywhere (e # es) = Expr_calls everywhere e @ Exprs_calls everywhere es"

fun VarDecl_calls :: "bool \<Rightarrow> VarDecl \<Rightarrow> string list" where
  "VarDecl_calls everywhere (VarDecl name arrayDims semantics initializer) =
     Exprs_calls everywhere arrayDims @
     (case initializer of None \<Rightarrow> [] | Some e \<Rightarrow> Expr_calls everywhere e)"

fun VarType_calls :: "bool \<Rightarrow> VarType \<Rightarrow> string list"
  and Structure_calls :: "bool \<Rightarrow> Structure \<Rightarrow> string list"
  and VarDeclStmnt_calls :: "bool \<Rightarrow> VarDeclStmnt \<Rightarrow> string list"
  and VarDeclStmnts_calls :: "bool \<Rightarrow> VarDeclStmnt list \<Rightarrow> string list" where
  "VarType_calls everywhere (VarType a baseType structType) =
     (if baseType \<noteq> [] \<and> \<not> everywhere then []
      else case structType of None \<Rightarrow> [] | Some s \<Rightarrow> Structure_calls everywhere s)"
| "Structure_calls everywhere (Structure a name members) = VarDeclStmnts_calls everywhere members"
| "VarDeclStmnt_calls everywhere (VarDeclStmnt a varType varDecls) =
     VarType_calls everywhere varType @ concat (map (VarDecl_calls everywhere) varDecls)"
| "VarDeclStmnts_calls everywhere [] = []"
| "VarDeclStmnts_calls everywhere (d # ds) =
     VarDeclStmnt_calls everywhere d @ VarDeclStmnts_calls everywhere ds"

fun Stmnt_calls :: "bool \<Rightarrow> Stmnt \<Rightarrow> string list"
  and Stmnts_calls :: "bool \<Rightarrow> Stmnt list \<Rightarrow> string list"
  and CodeBlock_calls :: "bool \<Rightarrow> CodeBlock \<Rightarrow> string list" where
  "Stmnt_calls everywhere (StmntVarDecl d) = VarDeclStmnt_calls everywhere d"
| "Stmnt_calls everywhere (CtrlTransferStmnt instr) = []"
| "Stmnt_calls everywhere (StmntCodeBlock b) = CodeBlock_calls everywhere b"
| "Stmnt_calls everywhere (StmntExpr e) = Expr_calls everywhere e"
| "Stmnt_calls everywhere (OtherStmnt subStmnts) = Stmnts_calls everywhere subStmnts"
| "Stmnts_calls everywhere [] = []"
| "Stmnts_calls everywhere (s # ss) = Stmnt_calls everywhere s @ Stmnts_calls everywhere ss"
| "CodeBlock_calls everywhere (CodeBlock stmnts) = Stmnts_calls everywhere stmnts"

fun GlobalDecl_calls :: "bool \<Rightarrow> GlobalDecl \<Rightarrow> string list" where
  "GlobalDecl_calls everywhere
     (GlobalFunctionDecl (FunctionDecl a name attribs returnType parameters codeBlock)) =
     concat (map (FunctionCall_calls everywhere) attribs) @ VarType_calls everywhere returnType @
     VarDeclStmnts_calls everywhere parameters @
     (case codeBlock of None \<Rightarrow> [] | Some b \<Rightarrow> CodeBlock_calls everywhere b)"
| "GlobalDecl_calls everywhere (GlobalBufferDecl (BufferDecl a bufferType members)) =
     VarDeclStmnts_calls everywhere members"
| "GlobalDecl_calls everywhere (GlobalStructDecl (StructDecl s)) = Structure_calls everywhere s"
| "GlobalDecl_calls everywhere OtherGlobalDecl = []"

fun Program_calls :: "bool \<Rightarrow> Program \<Rightarrow> string list" where
  "Program_calls everywhere (Program a globalDecls) =
     concat (map (GlobalDecl_calls everywhere) globalDecls)"

text \<open>The program flags that calls of these names set, and the relation "the program
  at \<open>p\<close> got the flags \<open>F\<close> and no program flag changed otherwise".\<close>

definition intrinsicFlags :: "string list \<Rightarrow> ProgramFlag set" where
  "intrinsicFlags names =
     (if ''mul'' \<in> set names then {Program_mulIntrinsicUsed} else {}) \<union>
     (if \<exists>n \<in> set names. intrinsicMap n = Some Interlocked
      then {Program_interlockedIntrinsicsUsed} else {})"

definition flagsAdded :: "addr \<Rightarrow> ProgramFlag set \<Rightarrow> analyzer \<Rightarrow> analyzer \<Rightarrow> bool" where
  "flagsAdded p F st st' \<longleftrightarrow>
     program st' = program st \<and>
     programFlags st' = (programFlags st)(p := programFlags st p \<union> F)"

text \<open>\<^verbatim>\<open>void f() { buffers[mul(a, b)].Load(); }\<close>: the call of \<^verbatim>\<open>mul\<close> is an array index
  inside the name of the call of \<^verbatim>\<open>buffers.Load\<close>.\<close>

definition programCallInName :: Program where
  "programCallInName = Program 0
     [ GlobalFunctionDecl
         (FunctionDecl 1 ''f'' [] (VarType 2 ''void'' None) []
            (Some (CodeBlock
               [StmntExpr (CallExpr
                  (FunctionCall
                     (VarIdent ''buffers''
                        [CallExpr (FunctionCall (VarIdent ''mul'' [] None)
                           [IdentExpr (VarIdent ''a'' [] None), IdentExpr (VarIdent ''b'' [] None)])]
                        (Some (VarIdent ''Load'' [] None)))
                     []))]))) ]"

text \<open>\<^verbatim>\<open>void f() { x = mul(a, InterlockedAdd(b)); sin(c); }\<close>\<close>

definition programIntrinsics :: Program where
  "programIntrinsics = Program 0
     [ GlobalFunctionDecl
         (FunctionDecl 1 ''f'' [] (VarType 2 ''void'' None) []
            (Some (CodeBlock
               [StmntExpr (OtherExpr
                  [IdentExpr (VarIdent ''x'' [] None),
                   CallExpr (FunctionCall (VarIdent ''mul'' [] None)
                     [IdentExpr (VarIdent ''a'' [] None),
                      CallExpr (FunctionCall (VarIdent ''InterlockedAdd'' [] None)
                        [IdentExpr (VarIdent ''b'' [] None)])])]),
                StmntExpr (CallExpr (FunctionCall (VarIdent ''sin'' [] None)
                  [IdentExpr (VarIdent ''c'' [] None)]))]))) ]"

section \<open>The entry point and its inputs and outputs\<close>


fun FunctionDecl_name :: "FunctionDecl \<Rightarrow> string" where
  "FunctionDecl_name (FunctionDecl a name attribs returnType parameters codeBlock) = name"

text \<open>The addresses of the \<^verbatim>\<open>VarType\<close> nodes of a tree. In a tree every node has an
  address of its own, so the list of a whole program has no repetition.\<close>

fun VarType_varTypes :: "VarType \<Rightarrow> addr list"
  and Structure_varTypes :: "Structure \<Rightarrow> addr list"
  and VarDeclStmnt_varTypes :: "VarDeclStmnt \<Rightarrow> addr list"
  and VarDeclStmnts_varTypes :: "VarDeclStmnt list \<Rightarrow> addr list" where
  "VarType_varTypes (VarType a baseType structType) =
     a # (case structType of None \<Rightarrow> [] | Some s \<Rightarrow> Structure_varTypes s)"
| "Structure_varTypes (Structure a name members) = VarDeclStmnts_varTypes members"
| "VarDeclStmnt_varTypes (VarDeclStmnt a varType varDecls) = VarType_varTypes varType"
| "VarDeclStmnts_varTypes [] = []"
| "VarDeclStmnts_varTypes (d # ds) = VarDeclStmnt_varTypes d @ VarDeclStmnts_varTypes ds"








text \<open>The symbol references outside the addresses \<open>A\<close> are as before.\<close>

definition refsKept :: "addr set \<Rightarrow> analyzer \<Rightarrow> analyzer \<Rightarrow> bool" where
  "refsKept A st st' \<longleftrightarrow> (\<forall>a. a \<in> A \<or> symbolRef st' a = symbolRef st a)"




text \<open>A \<^verbatim>\<open>tbuffer\<close> with a member of type \<^verbatim>\<open>T\<close> and a member that has no type.\<close>

definition tracedMembers :: "VarDeclStmnt list" where
  "tracedMembers =
     [ VarDeclStmnt 31 (VarType 32 ''T'' None) [VarDecl ''t'' [] [] None],
       VarDeclStmnt 33 (VarType 34 [] None) [VarDecl ''u'' [] [] None] ]"

section \<open>What the decoration of the entry point writes\<close>

fun FunctionDecl_returnType :: "FunctionDecl \<Rightarrow> VarType" where
  "FunctionDecl_returnType (FunctionDecl a name attribs returnType parameters codeBlock) =
     returnType"

fun FunctionDecl_parameters :: "FunctionDecl \<Rightarrow> VarDeclStmnt list" where
  "FunctionDecl_parameters (FunctionDecl a name attribs returnType parameters codeBlock) =
     parameters"

fun VarDeclStmnt_address :: "VarDeclStmnt \<Rightarrow> addr" where
  "VarDeclStmnt_address (VarDeclStmnt a varType varDecls) = a"

fun VarDeclStmnt_varType :: "VarDeclStmnt \<Rightarrow> VarType" where
  "VarDeclStmnt_varType (VarDeclStmnt a varType varDecls) = varType"

text \<open>The function declarations of the program that are named like the entry point, in
  program order, and their parameters.\<close>

fun entryFunctions :: "string \<Rightarrow> GlobalDecl list \<Rightarrow> FunctionDecl list" where
  "entryFunctions entry [] = []"
| "entryFunctions entry (GlobalFunctionDecl f # ds) =
     (if FunctionDecl_name f = entry then [f] else []) @ entryFunctions entry ds"
| "entryFunctions entry (d # ds) = entryFunctions entry ds"

definition entryParameters :: "string \<Rightarrow> GlobalDecl list \<Rightarrow> VarDeclStmnt list" where
  "entryParameters entry ds = concat (map FunctionDecl_parameters (entryFunctions entry ds))"

text \<open>
  The structures that a type names, given the symbol references \<open>r\<close>: the structure
  that its symbol reference resolves to (\<open>refTargets\<close>) and its inline structure. These
  are the structures that \<^verbatim>\<open>DecorateEntryInOut\<close> flags for the type.
\<close>

fun refTargets :: "(addr \<Rightarrow> ASTRef option) \<Rightarrow> VarType \<Rightarrow> addr set" where
  "refTargets r (VarType a baseType structType) =
     (case r a of
        None \<Rightarrow> {}
      | Some symbol \<Rightarrow> if Type symbol = Types_Structure then {address symbol} else {})"

fun typeTargets :: "(addr \<Rightarrow> ASTRef option) \<Rightarrow> VarType \<Rightarrow> addr set" where
  "typeTargets r (VarType a baseType structType) =
     (case structType of None \<Rightarrow> {} | Some s \<Rightarrow> {Structure_address s}) \<union>
     refTargets r (VarType a baseType structType)"

text \<open>The alias names that the decoration of the parameters \<open>ps\<close>, in order, assigns to
  the structure at \<open>s\<close>: the name of the first declarator of every parameter that has one
  and whose type resolves to the structure.\<close>

fun aliasWrites :: "(addr \<Rightarrow> ASTRef option) \<Rightarrow> VarDeclStmnt list \<Rightarrow> addr \<Rightarrow> string list" where
  "aliasWrites r [] s = []"
| "aliasWrites r (VarDeclStmnt a varType varDecls # ps) s =
     (case varDecls of
        [] \<Rightarrow> []
      | front # rest \<Rightarrow> if s \<in> refTargets r varType then [VarDecl_name front] else []) @
     aliasWrites r ps s"

text \<open>
  The state \<open>st'\<close> is \<open>st\<close> after the decoration of the return types \<open>outs\<close> as shader
  output and of the parameters \<open>ins\<close> as shader input, and nothing else written to the
  structure flags, the statement flags and the alias names.
\<close>

definition decorationEffect ::
  "(addr \<Rightarrow> ASTRef option) \<Rightarrow> VarType list \<Rightarrow> VarDeclStmnt list \<Rightarrow> analyzer \<Rightarrow> analyzer \<Rightarrow> bool" where
  "decorationEffect r outs ins st st' \<longleftrightarrow>
     (\<forall>s. structureFlags st' s = structureFlags st s \<union>
            (if \<exists>t \<in> set outs. s \<in> typeTargets r t then {Structure_isShaderOutput} else {}) \<union>
            (if \<exists>p \<in> set ins. s \<in> typeTargets r (VarDeclStmnt_varType p)
             then {Structure_isShaderInput} else {})) \<and>
     (\<forall>a. varDeclStmntFlags st' a = varDeclStmntFlags st a \<union>
            (if a \<in> VarDeclStmnt_address ` set ins then {VarDeclStmnt_isShaderInput} else {})) \<and>
     (\<forall>s. aliasName st' s = last (aliasName st s # aliasWrites r ins s))"

text \<open>\<^verbatim>\<open>struct VOut {}; VOut helper() {} VOut main() {}\<close>\<close>

definition sharedHelper :: FunctionDecl where
  "sharedHelper = FunctionDecl 3 ''helper'' [] (VarType 4 ''VOut'' None) [] (Some (CodeBlock []))"

definition sharedMain :: FunctionDecl where
  "sharedMain = FunctionDecl 5 ''main'' [] (VarType 6 ''VOut'' None) [] (Some (CodeBlock []))"

definition programSharedOutput :: Program where
  "programSharedOutput = Program 0
     [ GlobalStructDecl (StructDecl (Structure 1 ''VOut'' [])),
       GlobalFunctionDecl sharedHelper,
       GlobalFunctionDecl sharedMain ]"

section \<open>Properties\<close>

lemmas analyzer_defs =
  DecorateAST_def newAnalyzer_def Register_def Fetch_def OpenScope_def CloseScope_def
  SymbolTable_OpenScope_def SymbolTable_CloseScope_def Error_def addStructureFlag_def
  addProgramFlag_def VisitVarSemantic_def VisitPackOffset_def VisitCtrlTransferStmnt_def
  intrinsicMap_def EstablishMaps_def

subsection \<open>The alias name of a structure\<close>

lemma VisitVarDeclStmnt_result:
  assumes "VisitVarDeclStmnt (VarDeclStmnt a varType varDecls) st = Some st'"
  shows "\<exists>st1. VisitVarType varType st = Some st1 \<and> VisitVarDecls varDecls st1 = Some st'"
  using assms
  by (auto simp: bind_eq_Some_conv split: if_splits option.splits list.splits)

lemma VisitVarDeclStmnt_front_of_empty:
  assumes "VisitVarType varType st = Some st1"
    and "isInsideEntryPoint st1"
    and "symbolRef st1 (VarType_address varType) = Some symbol"
    and "Type symbol = Types_Structure"
    and "Structure_isShaderOutput \<in> structureFlags st1 (address symbol)"
    and "aliasName st1 (address symbol) = []"
  shows "VisitVarDeclStmnt (VarDeclStmnt a varType []) st = None"
  using assms by simp

text \<open>
  C3 (the code departs from the claim). In \<^verbatim>\<open>VisitVarDeclStmnt\<close> the alias is assigned only
  under the guard \<^verbatim>\<open>ast->varDecls.empty()\<close>, so \<^verbatim>\<open>ast->varDecls.front()\<close> is never a
  read within bounds when the branch is taken. On \<open>programBareOutput\<close> with entry point
  \<^verbatim>\<open>main\<close> the branch is taken (the return type has marked \<^verbatim>\<open>VOut\<close> as shader output, its
  alias is empty) and the walk reads the front of an empty vector.
\<close>

theorem alias_branch_reads_front_of_empty_vector:
  "DecorateAST newAnalyzer (Some programBareOutput) ''main'' 0 0 = None"
  by (simp add: analyzer_defs programBareOutput_def)

text \<open>
  C2 (the code departs from the claim). \<^verbatim>\<open>DecorateEntryInOut(VarDeclStmnt*, bool)\<close> assigns
  the alias without looking at the old one. With two parameters of the same structure type
  the alias is first \<^verbatim>\<open>a\<close> and then \<^verbatim>\<open>b\<close>: the last writer wins.
\<close>

theorem alias_name_overwritten:
  "aliasName (DecorateEntryInOut_VarDeclStmnt paramA True resolvedInputs) 1 = ''a'' \<and>
   aliasName (DecorateEntryInOut_VarDeclStmnt paramB True
                (DecorateEntryInOut_VarDeclStmnt paramA True resolvedInputs)) 1 = ''b'' \<and>
   map_option (\<lambda>r. aliasName (snd r) 1)
     (DecorateAST newAnalyzer (Some programTwoInputs) ''main'' 0 0) = Some ''b''"
  by (simp add: analyzer_defs programTwoInputs_def paramA_def paramB_def resolvedInputs_def)

subsection \<open>Relations that every step of the walk respects\<close>

lemma exprInvariant_refl: "exprInvariant R \<Longrightarrow> R s s"
  by (simp add: exprInvariant_def)

lemma exprInvariant_trans: "exprInvariant R \<Longrightarrow> R a b \<Longrightarrow> R b c \<Longrightarrow> R a c"
  unfolding exprInvariant_def by blast

lemma exprInvariant_addProgramFlag:
  "exprInvariant R \<Longrightarrow> addProgramFlag f s = Some s' \<Longrightarrow> R s s'"
  by (auto simp: addProgramFlag_def exprInvariant_def split: option.splits)

lemma typeInvariant_expr: "typeInvariant R \<Longrightarrow> exprInvariant R"
  by (simp add: typeInvariant_def)

lemma walkInvariant_type: "walkInvariant R \<Longrightarrow> typeInvariant R"
  by (simp add: walkInvariant_def)

lemma walkInvariant_expr: "walkInvariant R \<Longrightarrow> exprInvariant R"
  by (simp add: walkInvariant_def typeInvariant_def)

lemma passInvariant_walk: "passInvariant R \<Longrightarrow> walkInvariant R"
  by (simp add: passInvariant_def)

lemma passInvariant_expr: "passInvariant R \<Longrightarrow> exprInvariant R"
  by (simp add: passInvariant_def walkInvariant_def typeInvariant_def)

lemma walkInvariant_Register: "walkInvariant R \<Longrightarrow> R s (Register n a p s)"
  by (simp add: Register_def walkInvariant_def typeInvariant_def split: sum.splits)

lemma walkInvariantI:
  assumes "\<And>s. R s s" and "\<And>a b c. R a b \<Longrightarrow> R b c \<Longrightarrow> R a c"
    and "\<And>s r. R s (s\<lparr>programFlags := r\<rparr>)"
    and "\<And>s m a. R s (Error m a s)"
    and "\<And>s t. R s (s\<lparr>symTable := t\<rparr>)"
    and "\<And>s r. R s (s\<lparr>symbolRef := r\<rparr>)"
  shows "walkInvariant R"
  unfolding walkInvariant_def typeInvariant_def exprInvariant_def
  using assms by (auto simp: Register_def split: sum.splits)

lemma exprInvariant_Exprs:
  assumes W: "exprInvariant R"
  shows "VisitVarIdent v st = Some st' \<Longrightarrow> R st st'"
    and "VisitFunctionCall c st = Some st' \<Longrightarrow> R st st'"
    and "VisitExpr e st = Some st' \<Longrightarrow> R st st'"
    and "VisitExprs es st = Some st' \<Longrightarrow> R st st'"
proof (induction v st and c st and e st and es st arbitrary: st' and st' and st' and st'
    rule: VisitVarIdent_VisitFunctionCall_VisitExpr_VisitExprs.induct)
  case (1 ident arrayIndices "next" st)
  from "1.prems" obtain st1 where a: "VisitExprs arrayIndices st = Some st1"
    and b: "(case next of None \<Rightarrow> Some st1 | Some n \<Rightarrow> VisitVarIdent n st1) = Some st'"
    by (auto simp: bind_eq_Some_conv)
  have r1: "R st st1" using "1.IH"(1) a by blast
  have "R st1 st'"
  proof (cases "next")
    case None
    then show ?thesis using b exprInvariant_refl[OF W] by simp
  next
    case (Some n)
    then show ?thesis using b "1.IH"(2)[OF a Some] by simp
  qed
  with r1 show ?case using exprInvariant_trans[OF W] by blast
next
  case (2 name arguments st)
  from "2.prems" obtain st1 where
    a: "(if FullVarIdent name = ''mul'' then addProgramFlag Program_mulIntrinsicUsed st
         else case intrinsicMap (FullVarIdent name) of None \<Rightarrow> Some st
              | Some Interlocked \<Rightarrow> addProgramFlag Program_interlockedIntrinsicsUsed st) = Some st1"
    and b: "VisitExprs arguments st1 = Some st'"
    by (auto simp: bind_eq_Some_conv)
  have "R st st1"
    using a exprInvariant_addProgramFlag[OF W] exprInvariant_refl[OF W]
    by (auto split: if_splits option.splits IntrinsicClasses.splits)
  moreover have "R st1 st'" using "2.IH"[OF a b] .
  ultimately show ?case using exprInvariant_trans[OF W] by blast
next
  case (7 e es st)
  from "7.prems" obtain st1 where a: "VisitExpr e st = Some st1" and b: "VisitExprs es st1 = Some st'"
    by (auto simp: bind_eq_Some_conv)
  show ?case using "7.IH"(1)[OF a] "7.IH"(2)[OF a b] exprInvariant_trans[OF W] by blast
qed (use W in \<open>auto simp: exprInvariant_refl\<close>)

lemma exprInvariant_FunctionCalls:
  "exprInvariant R \<Longrightarrow> VisitFunctionCalls cs st = Some st' \<Longrightarrow> R st st'"
proof (induction cs arbitrary: st)
  case Nil
  then show ?case by (simp add: exprInvariant_refl)
next
  case (Cons c cs)
  from Cons.prems(2) obtain st1 where a: "VisitFunctionCall c st = Some st1"
    and b: "VisitFunctionCalls cs st1 = Some st'"
    by (auto simp: bind_eq_Some_conv)
  show ?case
    using exprInvariant_Exprs(2)[OF Cons.prems(1) a] Cons.IH[OF Cons.prems(1) b]
      exprInvariant_trans[OF Cons.prems(1)] by blast
qed

lemma VisitVarSemantics_id: "VisitVarSemantics ss st = Some st"
  by (induction ss) (simp_all add: VisitVarSemantic_def)

lemma VisitVarDecl_result:
  assumes "VisitVarDecl (VarDecl name arrayDims semantics initializer) st = Some st'"
  shows "\<exists>st1. VisitExprs arrayDims st = Some st1 \<and>
           (case initializer of None \<Rightarrow> Some st1 | Some e \<Rightarrow> VisitExpr e st1) = Some st'"
  using assms by (auto simp: bind_eq_Some_conv VisitVarSemantics_id)

lemma exprInvariant_VarDecl:
  assumes W: "exprInvariant R" and V: "VisitVarDecl d st = Some st'"
  shows "R st st'"
proof (cases d)
  case (VarDecl name arrayDims semantics initializer)
  from V obtain st1 where a: "VisitExprs arrayDims st = Some st1"
    and b: "(case initializer of None \<Rightarrow> Some st1 | Some e \<Rightarrow> VisitExpr e st1) = Some st'"
    using VisitVarDecl_result unfolding VarDecl by blast
  have "R st1 st'"
    using b exprInvariant_refl[OF W] exprInvariant_Exprs(3)[OF W]
    by (cases initializer) auto
  with exprInvariant_Exprs(4)[OF W a] show ?thesis
    using exprInvariant_trans[OF W] by blast
qed

lemma exprInvariant_VarDecls:
  "exprInvariant R \<Longrightarrow> VisitVarDecls ds st = Some st' \<Longrightarrow> R st st'"
proof (induction ds arbitrary: st)
  case Nil
  then show ?case by (simp add: exprInvariant_refl)
next
  case (Cons d ds)
  from Cons.prems(2) obtain st1 where a: "VisitVarDecl d st = Some st1"
    and b: "VisitVarDecls ds st1 = Some st'"
    by (auto simp: bind_eq_Some_conv)
  show ?case
    using exprInvariant_VarDecl[OF Cons.prems(1) a] Cons.IH[OF Cons.prems(1) b]
      exprInvariant_trans[OF Cons.prems(1)] by blast
qed

lemma typeInvariant_Types:
  assumes T: "typeInvariant R"
  shows "VisitVarType t st = Some st' \<Longrightarrow> R st st'"
    and "VisitStructure s st = Some st' \<Longrightarrow> R st st'"
    and "VisitVarDeclStmnt d st = Some st' \<Longrightarrow> R st st'"
    and "VisitVarDeclStmnts ds st = Some st' \<Longrightarrow> R st st'"
proof (induction t st and s st and d st and ds st arbitrary: st' and st' and st' and st'
    rule: VisitVarType_VisitStructure_VisitVarDeclStmnt_VisitVarDeclStmnts.induct)
  case (1 a baseType structType st)
  note W = typeInvariant_expr[OF T]
  show ?case
  proof (cases "baseType \<noteq> []")
    case True
    with "1.prems" show ?thesis
      using exprInvariant_refl[OF W] T
      by (auto simp: typeInvariant_def split: option.splits)
  next
    case False
    with "1.prems" "1.IH" show ?thesis
      using T by (auto simp: typeInvariant_def split: option.splits)
  qed
next
  case (2 a name members st)
  note W = typeInvariant_expr[OF T]
  let ?st1 = "if name \<noteq> [] then Register name (ASTRef Types_Structure a)
                (\<lambda>symbol. Type symbol = Types_StructDecl) st else st"
  have "R st ?st1"
    using T exprInvariant_refl[OF W] by (simp add: typeInvariant_def)
  moreover have "R ?st1 st'" using "2.IH" "2.prems" by simp
  ultimately show ?case using exprInvariant_trans[OF W] by blast
next
  case (3 a varType varDecls st)
  note W = typeInvariant_expr[OF T]
  from VisitVarDeclStmnt_result[OF "3.prems"] obtain st1
    where a: "VisitVarType varType st = Some st1" and b: "VisitVarDecls varDecls st1 = Some st'"
    by blast
  with "3.IH"[OF a] exprInvariant_VarDecls[OF W b] show ?case
    using exprInvariant_trans[OF W] by blast
next
  case (4 st)
  then show ?case using exprInvariant_refl[OF typeInvariant_expr[OF T]] by simp
next
  case (5 d ds st)
  from "5.prems" obtain st1 where a: "VisitVarDeclStmnt d st = Some st1"
    and b: "VisitVarDeclStmnts ds st1 = Some st'"
    by (auto simp: bind_eq_Some_conv)
  show ?case
    using "5.IH"(1)[OF a] "5.IH"(2)[OF a b] exprInvariant_trans[OF typeInvariant_expr[OF T]]
    by blast
qed

lemma walkInvariant_Stmnts:
  assumes V: "walkInvariant R"
  shows "VisitStmnt s st = Some st' \<Longrightarrow> R st st'"
    and "VisitStmnts ss st = Some st' \<Longrightarrow> R st st'"
    and "VisitCodeBlock b st = Some st' \<Longrightarrow> R st st'"
proof (induction s st and ss st and b st arbitrary: st' and st' and st'
    rule: VisitStmnt_VisitStmnts_VisitCodeBlock.induct)
  case (1 d st)
  then show ?case using typeInvariant_Types(3)[OF walkInvariant_type[OF V]] by simp
next
  case (2 instr st)
  then show ?case
    using exprInvariant_refl[OF walkInvariant_expr[OF V]] by (simp add: VisitCtrlTransferStmnt_def)
next
  case (3 b st)
  then show ?case by simp
next
  case (4 e st)
  then show ?case using exprInvariant_Exprs(3)[OF walkInvariant_expr[OF V]] by simp
next
  case (5 subStmnts st)
  then show ?case by simp
next
  case (6 st)
  then show ?case using exprInvariant_refl[OF walkInvariant_expr[OF V]] by simp
next
  case (7 s ss st)
  from "7.prems" obtain st1 where a: "VisitStmnt s st = Some st1"
    and b: "VisitStmnts ss st1 = Some st'"
    by (auto simp: bind_eq_Some_conv)
  show ?case
    using "7.IH"(1)[OF a] "7.IH"(2)[OF a b] exprInvariant_trans[OF walkInvariant_expr[OF V]]
    by blast
next
  case (8 stmnts st)
  note W = walkInvariant_expr[OF V]
  from "8.prems" obtain st1 where a: "VisitStmnts stmnts (OpenScope st) = Some st1"
    and b: "st' = CloseScope st1"
    by (auto simp: bind_eq_Some_conv)
  have "R st (OpenScope st)" using V by (simp add: OpenScope_def walkInvariant_def)
  moreover have "R (OpenScope st) st1" using "8.IH"[OF a] .
  moreover have "R st1 st'" using V by (simp add: b CloseScope_def walkInvariant_def)
  ultimately show ?case using exprInvariant_trans[OF W] by blast
qed

lemma decorInvariant_refl: "decorInvariant R \<Longrightarrow> R s s"
  by (simp add: decorInvariant_def)

lemma decorInvariant_trans: "decorInvariant R \<Longrightarrow> R a b \<Longrightarrow> R b c \<Longrightarrow> R a c"
  unfolding decorInvariant_def by blast

lemma passInvariant_decor: "passInvariant R \<Longrightarrow> decorInvariant R"
  unfolding passInvariant_def walkInvariant_def typeInvariant_def exprInvariant_def
    decorInvariant_def by (elim conjE, intro conjI, assumption+)

lemma decorInvariant_DecorateEntryInOut_VarType:
  assumes P: "decorInvariant R"
  shows "R st (DecorateEntryInOut_VarType t isInput st)"
proof (cases t)
  case (VarType a baseType structType)
    have A: "\<And>s a f. R s (addStructureFlag a f s)" using P by (simp add: decorInvariant_def)
  show ?thesis
    unfolding VarType
    by (auto simp: Let_def split: option.splits
        intro: A decorInvariant_refl[OF P] decorInvariant_trans[OF P, OF A A])
qed

lemma decorInvariant_DecorateEntryInOut_VarDeclStmnt:
  assumes P: "decorInvariant R"
  shows "R st (DecorateEntryInOut_VarDeclStmnt d isInput st)"
proof (cases d)
  case (VarDeclStmnt a varType varDecls)
    note tr = decorInvariant_trans[OF P]
  have A: "\<And>s a f. R s (addStructureFlag a f s)" using P by (simp add: decorInvariant_def)
  have B: "\<And>s a f. R s (s\<lparr>varDeclStmntFlags := (varDeclStmntFlags s)
                       (a := insert f (varDeclStmntFlags s a))\<rparr>)"
    using P by (simp add: decorInvariant_def)
  have C: "\<And>s r. R s (s\<lparr>aliasName := r\<rparr>)" using P by (simp add: decorInvariant_def)
  define flag where "flag = (if isInput then VarDeclStmnt_isShaderInput else VarDeclStmnt_isShaderOutput)"
  define sflag where "sflag = (if isInput then Structure_isShaderInput else Structure_isShaderOutput)"
  define st1 where "st1 = st\<lparr>varDeclStmntFlags := (varDeclStmntFlags st)
                  (a := insert flag (varDeclStmntFlags st a))\<rparr>"
  define st2 where "st2 = (case VarType_structType varType of
                   Some structType \<Rightarrow> addStructureFlag (Structure_address structType) sflag st1
                 | None \<Rightarrow> st1)"
  have r1: "R st st1" unfolding st1_def by (rule B)
  have r2: "R st1 st2" unfolding st2_def
    by (auto split: option.splits intro: A decorInvariant_refl[OF P])
  have r12: "R st st2" using tr[OF r1 r2] .
  have res: "DecorateEntryInOut_VarDeclStmnt d isInput st =
      (case symbolRef st2 (VarType_address varType) of
           None \<Rightarrow> st2
         | Some symbol \<Rightarrow>
             if Type symbol = Types_Structure then
               (let st3 = addStructureFlag (address symbol) sflag st2
                in case varDecls of
                     [] \<Rightarrow> st3
                   | front # rest \<Rightarrow>
                       st3\<lparr>aliasName := (aliasName st3)(address symbol := VarDecl_name front)\<rparr>)
             else st2)"
    unfolding VarDeclStmnt st2_def st1_def flag_def sflag_def by (simp add: Let_def)
  have "R st2 (DecorateEntryInOut_VarDeclStmnt d isInput st)"
    unfolding res
    by (auto simp: Let_def split: option.splits list.splits
        intro: A decorInvariant_refl[OF P] tr[OF A C])
  with r12 show ?thesis using tr by blast
qed

lemma decorInvariant_DecorateParameters:
  "decorInvariant R \<Longrightarrow> R st (DecorateParameters ps st)"
proof (induction ps arbitrary: st)
  case Nil
  then show ?case using decorInvariant_refl by simp
next
  case (Cons p ps)
  show ?case
    using decorInvariant_DecorateEntryInOut_VarDeclStmnt[OF Cons.prems, of st p True]
      Cons.IH[OF Cons.prems, of "DecorateEntryInOut_VarDeclStmnt p True st"]
      decorInvariant_trans[OF Cons.prems]
    by simp
qed

lemma passInvariant_FunctionDecl:
  assumes P: "passInvariant R" and V: "VisitFunctionDecl f st = Some st'"
  shows "R st st'"
proof (cases f)
  case (FunctionDecl a name attribs returnType parameters codeBlock)
  note W = passInvariant_expr[OF P]
  note tr = exprInvariant_trans[OF W]
  define st0 where "st0 = Register name (ASTRef Types_FunctionDecl a)
                     (\<lambda>symbol. Type symbol = Types_FunctionDecl) st"
  define flagged where "flagged s = s\<lparr>functionDeclFlags := (functionDeclFlags s)
                               (a := insert FunctionDecl_isUsed
                                  (insert FunctionDecl_isEntryPoint (functionDeclFlags s a)))\<rparr>" for s :: analyzer
  define decorated where "decorated s = (if name = entryPoint s then
                       DecorateParameters parameters
                         (DecorateEntryInOut_VarType returnType False (flagged s))
                     else s)" for s :: analyzer
  from V obtain st1 st2 st3 st6 where
    a: "VisitFunctionCalls attribs st0 = Some st1"
    and b: "VisitVarType returnType st1 = Some st2"
    and c: "VisitVarDeclStmnts parameters st2 = Some st3"
    and d: "(case codeBlock of None \<Rightarrow> Some ((decorated st3)\<lparr>isInsideEntryPoint := (name = entryPoint st3)\<rparr>)
             | Some b \<Rightarrow> VisitCodeBlock b ((decorated st3)\<lparr>isInsideEntryPoint := (name = entryPoint st3)\<rparr>)) = Some st6"
    and e: "st' = st6\<lparr>isInsideEntryPoint := False\<rparr>"
    unfolding FunctionDecl st0_def decorated_def flagged_def
    by (auto simp: bind_eq_Some_conv Let_def)
  have r0: "R st st0" unfolding st0_def by (rule walkInvariant_Register[OF passInvariant_walk[OF P]])
  have r1: "R st0 st1" using exprInvariant_FunctionCalls[OF W a] .
  have r2: "R st1 st2"
    using typeInvariant_Types(1)[OF walkInvariant_type[OF passInvariant_walk[OF P]] b] .
  have r3: "R st2 st3"
    using typeInvariant_Types(4)[OF walkInvariant_type[OF passInvariant_walk[OF P]] c] .
  have r4: "R st3 (decorated st3)"
  proof (cases "name = entryPoint st3")
    case True
    have "R st3 (flagged st3)" unfolding flagged_def using P by (simp add: passInvariant_def)
    moreover have "R (flagged st3) (DecorateEntryInOut_VarType returnType False (flagged st3))"
      by (rule decorInvariant_DecorateEntryInOut_VarType[OF passInvariant_decor[OF P]])
    moreover have "R (DecorateEntryInOut_VarType returnType False (flagged st3)) (decorated st3)"
      unfolding decorated_def using True decorInvariant_DecorateParameters[OF passInvariant_decor[OF P]] by simp
    ultimately show ?thesis using tr[OF tr] by blast
  next
    case False
    then show ?thesis unfolding decorated_def using exprInvariant_refl[OF W] by simp
  qed
  have r5: "R (decorated st3) ((decorated st3)\<lparr>isInsideEntryPoint := (name = entryPoint st3)\<rparr>)"
    using P by (simp add: passInvariant_def)
  have r6: "R ((decorated st3)\<lparr>isInsideEntryPoint := (name = entryPoint st3)\<rparr>) st6"
    using d exprInvariant_refl[OF W] walkInvariant_Stmnts(3)[OF passInvariant_walk[OF P]]
    by (cases codeBlock) auto
  have r7: "R st6 st'" unfolding e using P by (simp add: passInvariant_def)
  have "R st st3" using tr[OF tr[OF tr[OF r0 r1] r2] r3] .
  then have "R st st6" using tr[OF tr[OF tr[OF _ r4] r5] r6] by blast
  then show ?thesis using tr[OF _ r7] by blast
qed

lemma passInvariant_GlobalDecl:
  assumes P: "passInvariant R" and V: "VisitGlobalDecl d st = Some st'"
  shows "R st st'"
proof (cases d)
  case (GlobalFunctionDecl f)
  then show ?thesis using passInvariant_FunctionDecl[OF P] V by simp
next
  case (GlobalBufferDecl b)
  obtain a bufferType members where b: "b = BufferDecl a bufferType members" by (cases b)
  note T = walkInvariant_type[OF passInvariant_walk[OF P]]
  let ?st1 = "if bufferType \<noteq> ''cbuffer'' then
          Error (''buffer type '' @ [CHR 0x22] @ bufferType @ [CHR 0x22] @ '' currently not supported'')
            (Some a) st
        else st"
  have "R st ?st1" using T exprInvariant_refl[OF passInvariant_expr[OF P]]
    by (simp add: typeInvariant_def)
  moreover have "R ?st1 st'"
    using V typeInvariant_Types(4)[OF T] unfolding GlobalBufferDecl b by simp
  ultimately show ?thesis using exprInvariant_trans[OF passInvariant_expr[OF P]] by blast
next
  case (GlobalStructDecl s)
  obtain str where s: "s = StructDecl str" by (cases s)
  show ?thesis
    using V typeInvariant_Types(2)[OF walkInvariant_type[OF passInvariant_walk[OF P]]]
    unfolding GlobalStructDecl s by simp
next
  case OtherGlobalDecl
  then show ?thesis using V exprInvariant_refl[OF passInvariant_expr[OF P]] by simp
qed

lemma passInvariant_GlobalDecls:
  "passInvariant R \<Longrightarrow> VisitGlobalDecls ds st = Some st' \<Longrightarrow> R st st'"
proof (induction ds arbitrary: st)
  case Nil
  then show ?case using exprInvariant_refl[OF passInvariant_expr] by simp
next
  case (Cons d ds)
  from Cons.prems(2) obtain st1 where a: "VisitGlobalDecl d st = Some st1"
    and b: "VisitGlobalDecls ds st1 = Some st'"
    by (auto simp: bind_eq_Some_conv)
  show ?case
    using passInvariant_GlobalDecl[OF Cons.prems(1) a] Cons.IH[OF Cons.prems(1) b]
      exprInvariant_trans[OF passInvariant_expr[OF Cons.prems(1)]] by blast
qed

lemma passInvariant_Program:
  "passInvariant R \<Longrightarrow> VisitProgram p st = Some st' \<Longrightarrow> R st st'"
  by (cases p) (simp add: passInvariant_GlobalDecls)

lemma passInvariantI:
  assumes "\<And>s. R s s" and "\<And>a b c. R a b \<Longrightarrow> R b c \<Longrightarrow> R a c"
    and "\<And>s r. R s (s\<lparr>programFlags := r\<rparr>)"
    and "\<And>s m a. R s (Error m a s)"
    and "\<And>s t. R s (s\<lparr>symTable := t\<rparr>)"
    and "\<And>s r. R s (s\<lparr>symbolRef := r\<rparr>)"
    and "\<And>s r. R s (s\<lparr>functionDeclFlags := r\<rparr>)"
    and "\<And>s a f. R s (addStructureFlag a f s)"
    and "\<And>s a f. R s (s\<lparr>varDeclStmntFlags := (varDeclStmntFlags s)
                       (a := insert f (varDeclStmntFlags s a))\<rparr>)"
    and "\<And>s r. R s (s\<lparr>aliasName := r\<rparr>)"
    and "\<And>s b. R s (s\<lparr>isInsideEntryPoint := b\<rparr>)"
  shows "passInvariant R"
  unfolding passInvariant_def
  using walkInvariantI[of R, OF assms(1-6)] assms(7-11) by simp

lemma errorsAccumulate_passInvariant: "passInvariant errorsAccumulate"
proof (rule passInvariantI)
  fix a b c assume "errorsAccumulate a b" "errorsAccumulate b c"
  then show "errorsAccumulate a c" unfolding errorsAccumulate_def by auto
qed (auto simp: errorsAccumulate_def Error_def addStructureFlag_def)

subsection \<open>The result of \<^verbatim>\<open>DecorateAST\<close>\<close>

text \<open>
  C1 (as stated, the claim fails for a null program). The guard
  \<^verbatim>\<open>if (!program) return false;\<close> returns false although nothing was reported.
\<close>

theorem DecorateAST_null_program_counterexample:
  "DecorateAST newAnalyzer None ''main'' 0 0 = Some (False, newAnalyzer) \<and>
   reported newAnalyzer = []"
  by (simp add: DecorateAST_def newAnalyzer_def)

text \<open>
  C1 (amended). For a program that is not null, a call of \<^verbatim>\<open>DecorateAST\<close> that returns
  leaves the earlier reports in place and returns false if and only if at least one
  diagnostic was reported during the call.
\<close>

theorem DecorateAST_false_iff_reported:
  assumes "DecorateAST st (Some p) entry target version = Some (ok, st')"
  shows "\<exists>new. reported st' = reported st @ new \<and> (\<not> ok \<longleftrightarrow> new \<noteq> [])"
proof -
  let ?st0 = "st\<lparr>entryPoint := entry, shaderTarget := target, shaderVersion := version,
                 hasErrors := False, program := Some (Program_address p)\<rparr>"
  from assms have V: "VisitProgram p ?st0 = Some st'" and ok: "ok = (\<not> hasErrors st')"
    by (auto simp: DecorateAST_def bind_eq_Some_conv)
  from passInvariant_Program[OF errorsAccumulate_passInvariant V]
  show ?thesis unfolding errorsAccumulate_def ok by simp
qed

theorem DecorateAST_false_iff_reported_witness:
  "\<exists>ok st'. DecorateAST newAnalyzer (Some programTBuffer) ''main'' 0 0 = Some (ok, st') \<and>
     (\<exists>new. reported st' = reported newAnalyzer @ new \<and> (\<not> ok \<longleftrightarrow> new \<noteq> []))"
proof -
  have "map_option fst (DecorateAST newAnalyzer (Some programTBuffer) ''main'' 0 0) = Some False"
    by (simp add: analyzer_defs programTBuffer_def)
  then obtain ok st' where
    D: "DecorateAST newAnalyzer (Some programTBuffer) ''main'' 0 0 = Some (ok, st')"
    by auto
  from DecorateAST_false_iff_reported[OF D] D show ?thesis by blast
qed

subsection \<open>Registration and scopes\<close>

lemma Register_no_scope:
  "symTable s = [] \<Longrightarrow> Register n a p s = Error ''no active scope'' (Some (address a)) s"
  by (simp add: Register_def)

lemma Register_fresh:
  "symTable s = frame # outer \<Longrightarrow> frame n = None \<Longrightarrow>
   Register n a p s = s\<lparr>symTable := frame(n \<mapsto> a) # outer\<rparr>"
  by (simp add: Register_def)

lemma Register_override:
  "symTable s = frame # outer \<Longrightarrow> frame n = Some e \<Longrightarrow> p e \<Longrightarrow>
   Register n a p s = s\<lparr>symTable := frame(n \<mapsto> a) # outer\<rparr>"
  by (simp add: Register_def)

lemma Register_duplicate:
  "symTable s = frame # outer \<Longrightarrow> frame n = Some e \<Longrightarrow> \<not> p e \<Longrightarrow>
   Register n a p s = Error ''duplicate symbol'' (Some (address a)) s"
  by (simp add: Register_def)

lemma Register_symTable_cases:
  obtains "symTable (Register n a p s) = symTable s"
  | frame outer where "symTable s = frame # outer"
      and "symTable (Register n a p s) = frame(n \<mapsto> a) # outer"
      and "frame n = None \<or> (\<exists>e. frame n = Some e \<and> p e)"
proof (cases "symTable s")
  case Nil
  then show ?thesis using that(1) by (simp add: Register_no_scope Error_def)
next
  case (Cons frame outer)
  show ?thesis
  proof (cases "frame n")
    case None
    then show ?thesis using that(2)[OF Cons] Cons by (simp add: Register_fresh)
  next
    case (Some e)
    show ?thesis
    proof (cases "p e")
      case True
      then show ?thesis using that(2)[OF Cons] Cons Some by (simp add: Register_override)
    next
      case False
      then show ?thesis using that(1) Cons Some by (simp add: Register_duplicate Error_def)
    qed
  qed
qed

lemma symTable_kept_exprInvariant: "exprInvariant (\<lambda>s s'. symTable s' = symTable s)"
  by (simp add: exprInvariant_def)

lemma scopesKept_Register: "scopesKept s (Register n a p s)"
  by (rule Register_symTable_cases[of n a p s]) (simp_all add: scopesKept_def)

lemma scopesKept_typeInvariant: "typeInvariant scopesKept"
  unfolding typeInvariant_def exprInvariant_def
  using scopesKept_Register by (simp add: scopesKept_def Error_def)

lemma entryKept_Register:
  assumes "\<not> p symbol"
  shows "entryKept ident symbol s (Register n a p s)"
proof (rule Register_symTable_cases[of n a p s])
  assume "symTable (Register n a p s) = symTable s"
  then show ?thesis by (simp add: entryKept_def)
next
  fix frame outer
  assume a: "symTable s = frame # outer"
    and b: "symTable (Register n a p s) = frame(n \<mapsto> a) # outer"
    and c: "frame n = None \<or> (\<exists>e. frame n = Some e \<and> p e)"
  show ?thesis
    unfolding entryKept_def a b using c assms by auto
qed

lemma entryKept_trans:
  "entryKept ident symbol a b \<Longrightarrow> entryKept ident symbol b c \<Longrightarrow> entryKept ident symbol a c"
  unfolding entryKept_def by blast

lemma entryKept_same: "symTable s' = symTable s \<Longrightarrow> entryKept ident symbol s s'"
  by (simp add: entryKept_def)

lemma entryKept_typeInvariant:
  assumes "Type symbol \<noteq> Types_StructDecl"
  shows "typeInvariant (entryKept ident symbol)"
  unfolding typeInvariant_def exprInvariant_def
proof (intro conjI allI impI)
  fix a b c assume "entryKept ident symbol a b" "entryKept ident symbol b c"
  then show "entryKept ident symbol a c" by (rule entryKept_trans)
next
  fix s n a
  show "entryKept ident symbol s
      (Register n (ASTRef Types_Structure a) (\<lambda>symbol. Type symbol = Types_StructDecl) s)"
    by (rule entryKept_Register) (use assms in simp)
qed (simp_all add: entryKept_same Error_def)

lemma scopesKept_Stmnts:
  shows "VisitStmnt s st = Some st' \<Longrightarrow> scopesKept st st'"
    and "VisitStmnts ss st = Some st' \<Longrightarrow> scopesKept st st'"
    and "VisitCodeBlock b st = Some st' \<Longrightarrow> symTable st' = symTable st"
proof (induction s st and ss st and b st arbitrary: st' and st' and st'
    rule: VisitStmnt_VisitStmnts_VisitCodeBlock.induct)
  case (1 d st)
  then show ?case using typeInvariant_Types(3)[OF scopesKept_typeInvariant] by simp
next
  case (2 instr st)
  then show ?case by (simp add: VisitCtrlTransferStmnt_def scopesKept_def)
next
  case (3 b st)
  then show ?case by (simp add: scopesKept_def)
next
  case (4 e st)
  then show ?case
    using exprInvariant_Exprs(3)[OF symTable_kept_exprInvariant] by (simp add: scopesKept_def)
next
  case (5 subStmnts st)
  then show ?case by simp
next
  case (6 st)
  then show ?case by (simp add: scopesKept_def)
next
  case (7 s ss st)
  from "7.prems" obtain st1 where a: "VisitStmnt s st = Some st1"
    and b: "VisitStmnts ss st1 = Some st'"
    by (auto simp: bind_eq_Some_conv)
  show ?case using "7.IH"(1)[OF a] "7.IH"(2)[OF a b] by (simp add: scopesKept_def)
next
  case (8 stmnts st)
  from "8.prems" obtain st1 where a: "VisitStmnts stmnts (OpenScope st) = Some st1"
    and b: "st' = CloseScope st1"
    by (auto simp: bind_eq_Some_conv)
  from "8.IH"[OF a] have "length (symTable st1) = Suc (length (symTable st))"
    and "tl (symTable st1) = symTable st"
    by (simp_all add: scopesKept_def OpenScope_def SymbolTable_OpenScope_def)
  then show ?case
    by (cases "symTable st1") (simp_all add: b CloseScope_def SymbolTable_CloseScope_def)
qed

text \<open>
  C6. \<^verbatim>\<open>VisitCodeBlock\<close> opens a scope, visits the statements and closes the scope. While
  the statements are visited (\<open>st1\<close> is the state after any list of them), the table is one
  new frame over the unchanged table of the enclosing scopes: \<open>Fetch\<close> returns the block's
  own registration of a name if there is one (shadowing) and otherwise what it returned
  outside. Once the visit of the block completes the table is the one from before the
  block, so \<open>Fetch\<close> returns no symbol registered inside it.
\<close>

theorem CodeBlock_scoping:
  assumes "VisitStmnts stmnts (OpenScope st) = Some st1"
  shows "(\<exists>frame. symTable st1 = frame # symTable st \<and>
            (\<forall>ident. Fetch st1 ident =
               (case frame ident of Some inner \<Rightarrow> Some inner | None \<Rightarrow> Fetch st ident))) \<and>
         VisitCodeBlock (CodeBlock stmnts) st = Some (CloseScope st1) \<and>
         symTable (CloseScope st1) = symTable st \<and>
         (\<forall>ident. Fetch (CloseScope st1) ident = Fetch st ident)"
proof -
  from scopesKept_Stmnts(2)[OF assms] have "length (symTable st1) = Suc (length (symTable st))"
    and "tl (symTable st1) = symTable st"
    by (simp_all add: scopesKept_def OpenScope_def SymbolTable_OpenScope_def)
  then obtain frame where f: "symTable st1 = frame # symTable st"
    by (cases "symTable st1") simp_all
  have c: "symTable (CloseScope st1) = symTable st"
    by (simp add: CloseScope_def SymbolTable_CloseScope_def f)
  have "\<forall>ident. Fetch st1 ident =
               (case frame ident of Some inner \<Rightarrow> Some inner | None \<Rightarrow> Fetch st ident)"
    by (simp add: Fetch_def f split: option.splits)
  with f c assms show ?thesis by (simp add: Fetch_def)
qed

lemma blockShadowing_visit:
  "VisitStmnts blockShadowing (OpenScope outerScope) =
     Some (outerScope\<lparr>symTable := [[''S'' \<mapsto> ASTRef Types_Structure 12],
        [''S'' \<mapsto> ASTRef Types_Structure 1, ''T'' \<mapsto> ASTRef Types_Structure 2]]\<rparr>)"
  by (simp add: analyzer_defs blockShadowing_def outerScope_def)

theorem CodeBlock_scoping_witness:
  "\<exists>st1. VisitStmnts blockShadowing (OpenScope outerScope) = Some st1 \<and>
     Fetch st1 ''S'' = Some (ASTRef Types_Structure 12) \<and>
     Fetch st1 ''T'' = Some (ASTRef Types_Structure 2) \<and>
     VisitCodeBlock (CodeBlock blockShadowing) outerScope = Some (CloseScope st1) \<and>
     Fetch (CloseScope st1) ''S'' = Some (ASTRef Types_Structure 1)"
proof -
  let ?st1 = "outerScope\<lparr>symTable := [[''S'' \<mapsto> ASTRef Types_Structure 12],
        [''S'' \<mapsto> ASTRef Types_Structure 1, ''T'' \<mapsto> ASTRef Types_Structure 2]]\<rparr>"
  note T = CodeBlock_scoping[OF blockShadowing_visit]
  have F: "Fetch outerScope ''S'' = Some (ASTRef Types_Structure 1)"
    by (simp add: Fetch_def outerScope_def)
  have a: "Fetch ?st1 ''S'' = Some (ASTRef Types_Structure 12)"
    and b: "Fetch ?st1 ''T'' = Some (ASTRef Types_Structure 2)"
    by (simp_all add: Fetch_def)
  from T have c: "VisitCodeBlock (CodeBlock blockShadowing) outerScope = Some (CloseScope ?st1)"
    by blast
  from T have "Fetch (CloseScope ?st1) ''S'' = Fetch outerScope ''S''"
    by blast
  with F have d: "Fetch (CloseScope ?st1) ''S'' = Some (ASTRef Types_Structure 1)"
    by simp
  show ?thesis
    using blockShadowing_visit a b c d by blast
qed

subsection \<open>Variable types\<close>

text \<open>
  C9. Visiting a \<^verbatim>\<open>VarType\<close>: with a base type name, \<open>Fetch\<close> is consulted; a name that is
  not found leaves the state as it is (nothing recorded, no error), a symbol that is found
  becomes the symbol reference of the type and nothing else changes. Without a base type
  name an inline structure is visited, and with neither of them exactly one error
  "missing variable type" is reported for the node.
\<close>

theorem VisitVarType_rule:
  "(baseType \<noteq> [] \<and> Fetch st baseType = None \<longrightarrow>
      VisitVarType (VarType a baseType structType) st = Some st) \<and>
   (baseType \<noteq> [] \<and> Fetch st baseType = Some symbol \<longrightarrow>
      VisitVarType (VarType a baseType structType) st =
        Some (st\<lparr>symbolRef := (symbolRef st)(a \<mapsto> symbol)\<rparr>)) \<and>
   VisitVarType (VarType a [] (Some s)) st = VisitStructure s st \<and>
   VisitVarType (VarType a [] None) st =
     Some (st\<lparr>hasErrors := True, reported := reported st @ [(''missing variable type'', Some a)]\<rparr>)"
  by (simp add: Error_def)

theorem VisitVarType_rule_witness:
  "VisitVarType (VarType 3 ''float4'' None) newAnalyzer = Some newAnalyzer \<and>
   VisitVarType (VarType 11 ''T'' None) outerScope =
     Some (outerScope\<lparr>symbolRef := (symbolRef outerScope)(11 \<mapsto> ASTRef Types_Structure 2)\<rparr>)"
proof -
  have a: "Fetch newAnalyzer ''float4'' = None" by (simp add: Fetch_def newAnalyzer_def)
  have b: "Fetch outerScope ''T'' = Some (ASTRef Types_Structure 2)"
    by (simp add: Fetch_def outerScope_def)
  from VisitVarType_rule[where baseType="''float4''" and st=newAnalyzer and a=3 and structType=None] a
  have "VisitVarType (VarType 3 ''float4'' None) newAnalyzer = Some newAnalyzer" by simp
  moreover from VisitVarType_rule[where baseType="''T''" and st=outerScope
      and symbol="ASTRef Types_Structure 2" and a=11 and structType=None] b
  have "VisitVarType (VarType 11 ''T'' None) outerScope =
     Some (outerScope\<lparr>symbolRef := (symbolRef outerScope)(11 \<mapsto> ASTRef Types_Structure 2)\<rparr>)"
    by simp
  ultimately show ?thesis by simp
qed

subsection \<open>Registration of structures\<close>

text \<open>
  C7. Visiting a named structure registers it under its name in the innermost frame: a new
  name is inserted, and an existing entry is replaced only when it is a \<^verbatim>\<open>StructDecl\<close>
  (the override predicate). Against any other existing entry exactly one error
  "duplicate symbol" is reported for the node, the table is left as it is (it retains the
  first declaration) and the members are still visited. An anonymous structure goes
  straight to its members and registers nothing. In particular two structures of the same
  new name, visited one after the other in the same scope, give one error and the first
  stays registered.
\<close>

theorem VisitStructure_registration:
  assumes "symTable st = frame # outer"
  shows "(name \<noteq> [] \<and> (frame name = None \<or> (\<exists>e. frame name = Some e \<and> Type e = Types_StructDecl)) \<longrightarrow>
            VisitStructure (Structure a name members) st =
              VisitVarDeclStmnts members
                (st\<lparr>symTable := frame(name \<mapsto> ASTRef Types_Structure a) # outer\<rparr>)) \<and>
         (name \<noteq> [] \<and> (\<exists>e. frame name = Some e \<and> Type e \<noteq> Types_StructDecl) \<longrightarrow>
            VisitStructure (Structure a name members) st =
              VisitVarDeclStmnts members
                (st\<lparr>hasErrors := True,
                     reported := reported st @ [(''duplicate symbol'', Some a)]\<rparr>)) \<and>
         VisitStructure (Structure a [] members) st = VisitVarDeclStmnts members st \<and>
         (name \<noteq> [] \<and> frame name = None \<longrightarrow>
            do { st1 \<leftarrow> VisitStructure (Structure a name []) st;
                 VisitStructure (Structure a' name []) st1 } =
              Some (st\<lparr>symTable := frame(name \<mapsto> ASTRef Types_Structure a) # outer,
                       hasErrors := True,
                       reported := reported st @ [(''duplicate symbol'', Some a')]\<rparr>))"
  using assms by (auto simp: Register_def Error_def)

theorem VisitStructure_registration_witness:
  "VisitStructure (Structure 1 ''S'' []) newAnalyzer =
     VisitVarDeclStmnts []
       (newAnalyzer\<lparr>symTable := [Map.empty(''S'' \<mapsto> ASTRef Types_Structure 1)]\<rparr>) \<and>
   do { st1 \<leftarrow> VisitStructure (Structure 1 ''S'' []) newAnalyzer;
        VisitStructure (Structure 2 ''S'' []) st1 } =
     Some (newAnalyzer\<lparr>symTable := [Map.empty(''S'' \<mapsto> ASTRef Types_Structure 1)],
             hasErrors := True,
             reported := reported newAnalyzer @ [(''duplicate symbol'', Some 2)]\<rparr>) \<and>
   VisitStructure (Structure 12 ''S'' []) outerScope =
     VisitVarDeclStmnts []
       (outerScope\<lparr>hasErrors := True,
          reported := reported outerScope @ [(''duplicate symbol'', Some 12)]\<rparr>)"
proof -
  have a: "symTable newAnalyzer = Map.empty # []" by (simp add: newAnalyzer_def)
  have b: "symTable outerScope =
      [''S'' \<mapsto> ASTRef Types_Structure 1, ''T'' \<mapsto> ASTRef Types_Structure 2] # []"
    by (simp add: outerScope_def)
  note A = VisitStructure_registration[OF a, where name="''S''" and a=1 and a'=2 and members="[]"]
  note B = VisitStructure_registration[OF b, where name="''S''" and a=12 and members="[]"]
  from A B show ?thesis
    by (simp add: Register_def Error_def newAnalyzer_def outerScope_def)
qed

lemma VisitFunctionDecl_SomeE:
  assumes "VisitFunctionDecl (FunctionDecl a name attribs returnType parameters codeBlock) st = Some st'"
  obtains st1 st2 st3 st4 st6 where
    "VisitFunctionCalls attribs
       (Register name (ASTRef Types_FunctionDecl a) (\<lambda>symbol. Type symbol = Types_FunctionDecl) st)
       = Some st1"
    and "VisitVarType returnType st1 = Some st2"
    and "VisitVarDeclStmnts parameters st2 = Some st3"
    and "st4 = (if name = entryPoint st3 then
                  DecorateParameters parameters
                    (DecorateEntryInOut_VarType returnType False
                       (st3\<lparr>functionDeclFlags := (functionDeclFlags st3)
                          (a := insert FunctionDecl_isUsed
                             (insert FunctionDecl_isEntryPoint (functionDeclFlags st3 a)))\<rparr>))
                else st3)"
    and "(case codeBlock of
            None \<Rightarrow> Some (st4\<lparr>isInsideEntryPoint := (name = entryPoint st3)\<rparr>)
          | Some b \<Rightarrow> VisitCodeBlock b (st4\<lparr>isInsideEntryPoint := (name = entryPoint st3)\<rparr>))
         = Some st6"
    and "st' = st6\<lparr>isInsideEntryPoint := False\<rparr>"
  using assms by (auto simp: bind_eq_Some_conv Let_def)

lemma symTable_kept_decorInvariant: "decorInvariant (\<lambda>s s'. symTable s' = symTable s)"
  by (simp add: decorInvariant_def addStructureFlag_def)

lemma entryKept_Stmnts:
  shows "VisitStmnt s st = Some st' \<Longrightarrow> Type symbol \<noteq> Types_StructDecl \<Longrightarrow> entryKept ident symbol st st'"
    and "VisitStmnts ss st = Some st' \<Longrightarrow> Type symbol \<noteq> Types_StructDecl \<Longrightarrow> entryKept ident symbol st st'"
    and "VisitCodeBlock b st = Some st' \<Longrightarrow> Type symbol \<noteq> Types_StructDecl \<Longrightarrow> entryKept ident symbol st st'"
proof (induction s st and ss st and b st arbitrary: st' and st' and st'
    rule: VisitStmnt_VisitStmnts_VisitCodeBlock.induct)
  case (1 d st)
  then show ?case using typeInvariant_Types(3)[OF entryKept_typeInvariant] by simp
next
  case (2 instr st)
  then show ?case by (simp add: VisitCtrlTransferStmnt_def entryKept_same)
next
  case (3 b st)
  then show ?case by simp
next
  case (4 e st)
  then show ?case
    using exprInvariant_Exprs(3)[OF symTable_kept_exprInvariant] by (simp add: entryKept_same)
next
  case (5 subStmnts st)
  then show ?case by simp
next
  case (6 st)
  then show ?case by (simp add: entryKept_same)
next
  case (7 s ss st)
  from "7.prems" obtain st1 where a: "VisitStmnt s st = Some st1"
    and b: "VisitStmnts ss st1 = Some st'"
    by (auto simp: bind_eq_Some_conv)
  show ?case using "7.IH"(1)[OF a "7.prems"(2)] "7.IH"(2)[OF a b "7.prems"(2)] entryKept_trans by blast
next
  case (8 stmnts st)
  then show ?case using scopesKept_Stmnts(3) entryKept_same by blast
qed

lemma entryKept_FunctionDecl:
  assumes S: "Type symbol = Types_Structure" and V: "VisitFunctionDecl f st = Some st'"
  shows "entryKept ident symbol st st'"
proof (cases f)
  case (FunctionDecl a name attribs returnType parameters codeBlock)
  have N: "Type symbol \<noteq> Types_StructDecl" using S by simp
  note T = entryKept_typeInvariant[OF N, of ident]
  from V[unfolded FunctionDecl] obtain st1 st2 st3 st4 st6 where
    a: "VisitFunctionCalls attribs
       (Register name (ASTRef Types_FunctionDecl a) (\<lambda>symbol. Type symbol = Types_FunctionDecl) st)
       = Some st1"
    and b: "VisitVarType returnType st1 = Some st2"
    and c: "VisitVarDeclStmnts parameters st2 = Some st3"
    and d: "st4 = (if name = entryPoint st3 then
                  DecorateParameters parameters
                    (DecorateEntryInOut_VarType returnType False
                       (st3\<lparr>functionDeclFlags := (functionDeclFlags st3)
                          (a := insert FunctionDecl_isUsed
                             (insert FunctionDecl_isEntryPoint (functionDeclFlags st3 a)))\<rparr>))
                else st3)"
    and e: "(case codeBlock of
            None \<Rightarrow> Some (st4\<lparr>isInsideEntryPoint := (name = entryPoint st3)\<rparr>)
          | Some b \<Rightarrow> VisitCodeBlock b (st4\<lparr>isInsideEntryPoint := (name = entryPoint st3)\<rparr>))
         = Some st6"
    and f: "st' = st6\<lparr>isInsideEntryPoint := False\<rparr>"
    by (rule VisitFunctionDecl_SomeE)
  have r0: "entryKept ident symbol st
      (Register name (ASTRef Types_FunctionDecl a) (\<lambda>symbol. Type symbol = Types_FunctionDecl) st)"
    by (rule entryKept_Register) (simp add: S)
  have "symTable st1 = symTable
      (Register name (ASTRef Types_FunctionDecl a) (\<lambda>symbol. Type symbol = Types_FunctionDecl) st)"
    using exprInvariant_FunctionCalls[OF symTable_kept_exprInvariant a] .
  then have r1: "entryKept ident symbol st st1"
    using r0 by (simp add: entryKept_def)
  have r2: "entryKept ident symbol st1 st2" using typeInvariant_Types(1)[OF T b] .
  have r3: "entryKept ident symbol st2 st3" using typeInvariant_Types(4)[OF T c] .
  have s4: "symTable st4 = symTable st3"
    unfolding d
    using decorInvariant_DecorateParameters[OF symTable_kept_decorInvariant]
      decorInvariant_DecorateEntryInOut_VarType[OF symTable_kept_decorInvariant]
    by simp
  have s6: "symTable st6 = symTable st4"
    using e scopesKept_Stmnts(3) by (cases codeBlock) auto
  have "symTable st' = symTable st3" using s4 s6 f by simp
  then have "entryKept ident symbol st3 st'" by (rule entryKept_same)
  with r1 r2 r3 show ?thesis using entryKept_trans by blast
qed

lemma entryKept_GlobalDecl:
  assumes S: "Type symbol = Types_Structure" and V: "VisitGlobalDecl d st = Some st'"
  shows "entryKept ident symbol st st'"
proof (cases d)
  case (GlobalFunctionDecl f)
  then show ?thesis using entryKept_FunctionDecl[OF S] V by simp
next
  case (GlobalBufferDecl b)
  obtain a bufferType members where b: "b = BufferDecl a bufferType members" by (cases b)
  have N: "Type symbol \<noteq> Types_StructDecl" using S by simp
  let ?st1 = "if bufferType \<noteq> ''cbuffer'' then
          Error (''buffer type '' @ [CHR 0x22] @ bufferType @ [CHR 0x22] @ '' currently not supported'')
            (Some a) st
        else st"
  have "symTable ?st1 = symTable st" by (simp add: Error_def)
  then have "entryKept ident symbol st ?st1" by (rule entryKept_same)
  moreover have "entryKept ident symbol ?st1 st'"
    using V typeInvariant_Types(4)[OF entryKept_typeInvariant[OF N]]
    unfolding GlobalBufferDecl b by simp
  ultimately show ?thesis by (rule entryKept_trans)
next
  case (GlobalStructDecl s)
  obtain str where s: "s = StructDecl str" by (cases s)
  have N: "Type symbol \<noteq> Types_StructDecl" using S by simp
  show ?thesis
    using V typeInvariant_Types(2)[OF entryKept_typeInvariant[OF N]]
    unfolding GlobalStructDecl s by simp
next
  case OtherGlobalDecl
  then show ?thesis using V by (simp add: entryKept_same)
qed

lemma entryKept_GlobalDecls:
  "Type symbol = Types_Structure \<Longrightarrow> VisitGlobalDecls ds st = Some st' \<Longrightarrow>
   entryKept ident symbol st st'"
proof (induction ds arbitrary: st)
  case Nil
  then show ?case by (simp add: entryKept_same)
next
  case (Cons d ds)
  from Cons.prems(2) obtain st1 where a: "VisitGlobalDecl d st = Some st1"
    and b: "VisitGlobalDecls ds st1 = Some st'"
    by (auto simp: bind_eq_Some_conv)
  show ?case
    using entryKept_GlobalDecl[OF Cons.prems(1) a] Cons.IH[OF Cons.prems(1) b]
    by (rule entryKept_trans)
qed

text \<open>
  C10. Once the Structure rule has registered a structure under a name (the name was new
  in the innermost frame, or it replaced a \<^verbatim>\<open>StructDecl\<close> entry), the entry has the
  variant \<^verbatim>\<open>Structure\<close> and stays in that frame through the visit of the structure's
  members and of any later declarations or statements of the same scope. Visiting another
  structure of that name in the scope is then always rejected: the override predicate
  accepts only a \<^verbatim>\<open>StructDecl\<close> entry, so one "duplicate symbol" error is reported, the
  table is unchanged and the members are visited.
\<close>

theorem Structure_reregistration_rejected:
  assumes "name \<noteq> []" and "symTable st = frame # outer"
    and "frame name = None \<or> (\<exists>e. frame name = Some e \<and> Type e = Types_StructDecl)"
    and "VisitStructure (Structure a name members) st = Some st1"
    and "VisitGlobalDecls decls st1 = Some st2 \<or> VisitStmnts stmnts st1 = Some st2"
  shows "\<exists>frame2. symTable st2 = frame2 # outer \<and>
           frame2 name = Some (ASTRef Types_Structure a) \<and>
           VisitStructure (Structure a' name members') st2 =
             VisitVarDeclStmnts members'
               (st2\<lparr>hasErrors := True,
                    reported := reported st2 @ [(''duplicate symbol'', Some a')]\<rparr>)"
proof -
  let ?sym = "ASTRef Types_Structure a"
  let ?st0 = "st\<lparr>symTable := frame(name \<mapsto> ?sym) # outer\<rparr>"
  have N: "Type ?sym \<noteq> Types_StructDecl" by simp
  have "VisitVarDeclStmnts members ?st0 = Some st1"
    using assms(1-4) by (auto simp: Register_def)
  from typeInvariant_Types(4)[OF entryKept_typeInvariant[OF N] this]
  have "entryKept name ?sym ?st0 st1" .
  moreover have "entryKept name ?sym st1 st2"
    using assms(5) entryKept_GlobalDecls[of ?sym] entryKept_Stmnts(2)[OF _ N] by auto
  ultimately have "entryKept name ?sym ?st0 st2" by (rule entryKept_trans)
  then obtain frame2 where f: "symTable st2 = frame2 # outer" and g: "frame2 name = Some ?sym"
    unfolding entryKept_def by auto
  have "VisitStructure (Structure a' name members') st2 =
             VisitVarDeclStmnts members'
               (st2\<lparr>hasErrors := True,
                    reported := reported st2 @ [(''duplicate symbol'', Some a')]\<rparr>)"
    using assms(1) f g by (simp add: Register_def Error_def)
  with f g show ?thesis by blast
qed

theorem Structure_reregistration_rejected_witness:
  "\<exists>st1 st2 frame2. VisitStructure (Structure 1 ''S'' []) newAnalyzer = Some st1 \<and>
     VisitGlobalDecls twoStructures st1 = Some st2 \<and>
     symTable st2 = frame2 # [] \<and> frame2 ''S'' = Some (ASTRef Types_Structure 1) \<and>
     VisitStructure (Structure 2 ''S'' []) st2 =
       VisitVarDeclStmnts []
         (st2\<lparr>hasErrors := True, reported := reported st2 @ [(''duplicate symbol'', Some 2)]\<rparr>)"
proof -
  have a: "symTable newAnalyzer = Map.empty # []" by (simp add: newAnalyzer_def)
  have "\<exists>st1. VisitStructure (Structure 1 ''S'' []) newAnalyzer = Some st1" by simp
  then obtain st1 where b: "VisitStructure (Structure 1 ''S'' []) newAnalyzer = Some st1" ..
  have "\<exists>st2. VisitGlobalDecls twoStructures st1 = Some st2"
    using b by (auto simp: twoStructures_def analyzer_defs)
  then obtain st2 where c: "VisitGlobalDecls twoStructures st1 = Some st2" ..
  from Structure_reregistration_rejected[OF _ a _ b disjI1[OF c], of 2 "[]"] b c
  show ?thesis by auto
qed

subsection \<open>Buffer declarations\<close>

lemma reports_grow_exprInvariant:
  "exprInvariant (\<lambda>s s'. length (reported s) \<le> length (reported s'))"
  by (auto simp: exprInvariant_def)

lemma reports_grow_typeInvariant:
  "typeInvariant (\<lambda>s s'. length (reported s) \<le> length (reported s'))"
  unfolding typeInvariant_def
  using reports_grow_exprInvariant
  by (auto simp: Error_def Register_def split: sum.splits)

lemma insertReport_Error:
  "n \<le> length (reported st) \<Longrightarrow>
   Error m a (insertReport n e st) = insertReport n e (Error m a st)"
  by (simp add: Error_def insertReport_def)

lemma insertReport_Register:
  "n \<le> length (reported st) \<Longrightarrow>
   Register i a p (insertReport n e st) = insertReport n e (Register i a p st)"
  by (simp add: Register_def insertReport_def Error_def split: sum.splits)

lemma insertReport_addProgramFlag:
  "addProgramFlag f (insertReport n e st) = map_option (insertReport n e) (addProgramFlag f st)"
  by (simp add: addProgramFlag_def insertReport_def split: option.splits)

lemma insertReport_fields [simp]:
  "symTable (insertReport n e st) = symTable st"
  "symbolRef (insertReport n e st) = symbolRef st"
  "structureFlags (insertReport n e st) = structureFlags st"
  "aliasName (insertReport n e st) = aliasName st"
  "isInsideEntryPoint (insertReport n e st) = isInsideEntryPoint st"
  "Fetch (insertReport n e st) = Fetch st"
  by (simp_all add: insertReport_def Fetch_def fun_eq_iff)

lemma insertReport_symbolRef:
  "(insertReport n e st)\<lparr>symbolRef := r\<rparr> = insertReport n e (st\<lparr>symbolRef := r\<rparr>)"
  by (simp add: insertReport_def)

lemma insertReport_aliasName:
  "(insertReport n e st)\<lparr>aliasName := r\<rparr> = insertReport n e (st\<lparr>aliasName := r\<rparr>)"
  by (simp add: insertReport_def)

lemma bind_insertReport:
  assumes "f (insertReport n e st) = map_option (insertReport n e) (f st)"
    and "\<And>st1. f st = Some st1 \<Longrightarrow> g (insertReport n e st1) = map_option (insertReport n e) (g st1)"
  shows "(f (insertReport n e st) \<bind> g) = map_option (insertReport n e) (f st \<bind> g)"
  using assms by (cases "f st") simp_all

lemma insertReport_Exprs:
  shows "VisitVarIdent v (insertReport n e st) = map_option (insertReport n e) (VisitVarIdent v st)"
    and "VisitFunctionCall c (insertReport n e st) = map_option (insertReport n e) (VisitFunctionCall c st)"
    and "VisitExpr x (insertReport n e st) = map_option (insertReport n e) (VisitExpr x st)"
    and "VisitExprs xs (insertReport n e st) = map_option (insertReport n e) (VisitExprs xs st)"
proof (induction v st and c st and x st and xs st
    rule: VisitVarIdent_VisitFunctionCall_VisitExpr_VisitExprs.induct)
  case (1 ident arrayIndices "next" st)
  show ?case
    unfolding VisitVarIdent.simps
  proof (rule bind_insertReport)
    show "VisitExprs arrayIndices (insertReport n e st) =
        map_option (insertReport n e) (VisitExprs arrayIndices st)" by (rule "1.IH"(1))
  next
    fix st1 assume "VisitExprs arrayIndices st = Some st1"
    then show "(case next of None \<Rightarrow> Some (insertReport n e st1)
          | Some v \<Rightarrow> VisitVarIdent v (insertReport n e st1)) =
         map_option (insertReport n e)
          (case next of None \<Rightarrow> Some st1 | Some v \<Rightarrow> VisitVarIdent v st1)"
      using "1.IH"(2) by (cases "next") simp_all
  qed
next
  case (2 name arguments st)
  show ?case
    unfolding VisitFunctionCall.simps
  proof (rule bind_insertReport)
    show "(if FullVarIdent name = ''mul''
         then addProgramFlag Program_mulIntrinsicUsed (insertReport n e st)
         else case intrinsicMap (FullVarIdent name) of None \<Rightarrow> Some (insertReport n e st)
              | Some Interlocked \<Rightarrow>
                  addProgramFlag Program_interlockedIntrinsicsUsed (insertReport n e st)) =
        map_option (insertReport n e)
         (if FullVarIdent name = ''mul'' then addProgramFlag Program_mulIntrinsicUsed st
          else case intrinsicMap (FullVarIdent name) of None \<Rightarrow> Some st
               | Some Interlocked \<Rightarrow> addProgramFlag Program_interlockedIntrinsicsUsed st)"
      by (simp add: insertReport_addProgramFlag split: option.splits IntrinsicClasses.splits)
  next
    fix st1
    assume "(if FullVarIdent name = ''mul'' then addProgramFlag Program_mulIntrinsicUsed st
          else case intrinsicMap (FullVarIdent name) of None \<Rightarrow> Some st
               | Some Interlocked \<Rightarrow> addProgramFlag Program_interlockedIntrinsicsUsed st) = Some st1"
    then show "VisitExprs arguments (insertReport n e st1) =
        map_option (insertReport n e) (VisitExprs arguments st1)"
      by (rule "2.IH")
  qed
next
  case (7 x xs st)
  show ?case
    unfolding VisitExprs.simps
    by (rule bind_insertReport) (use "7.IH" in auto)
qed simp_all


lemma insertReport_VarDecl:
  "VisitVarDecl d (insertReport n e st) = map_option (insertReport n e) (VisitVarDecl d st)"
proof (cases d)
  case (VarDecl name arrayDims semantics initializer)
  show ?thesis
    unfolding VarDecl VisitVarDecl.simps
  proof (rule bind_insertReport)
    show "VisitExprs arrayDims (insertReport n e st) =
        map_option (insertReport n e) (VisitExprs arrayDims st)"
      by (rule insertReport_Exprs(4))
  next
    fix st1
    show "(VisitVarSemantics semantics (insertReport n e st1) \<bind>
         (\<lambda>st2. case initializer of None \<Rightarrow> Some st2 | Some e \<Rightarrow> VisitExpr e st2)) =
        map_option (insertReport n e)
         (VisitVarSemantics semantics st1 \<bind>
          (\<lambda>st2. case initializer of None \<Rightarrow> Some st2 | Some e \<Rightarrow> VisitExpr e st2))"
      by (cases initializer) (simp_all add: VisitVarSemantics_id insertReport_Exprs(3))
  qed
qed

lemma insertReport_VarDecls:
  "VisitVarDecls ds (insertReport n e st) = map_option (insertReport n e) (VisitVarDecls ds st)"
proof (induction ds arbitrary: st)
  case Nil
  show ?case by simp
next
  case (Cons d ds)
  show ?case
    unfolding VisitVarDecls.simps
    by (rule bind_insertReport) (simp_all add: insertReport_VarDecl Cons.IH)
qed

lemma insertReport_Types:
  shows "n \<le> length (reported st) \<Longrightarrow>
      VisitVarType t (insertReport n e st) = map_option (insertReport n e) (VisitVarType t st)"
    and "n \<le> length (reported st) \<Longrightarrow>
      VisitStructure s (insertReport n e st) = map_option (insertReport n e) (VisitStructure s st)"
    and "n \<le> length (reported st) \<Longrightarrow>
      VisitVarDeclStmnt d (insertReport n e st) = map_option (insertReport n e) (VisitVarDeclStmnt d st)"
    and "n \<le> length (reported st) \<Longrightarrow>
      VisitVarDeclStmnts ds (insertReport n e st) = map_option (insertReport n e) (VisitVarDeclStmnts ds st)"
proof (induction t st and s st and d st and ds st
    rule: VisitVarType_VisitStructure_VisitVarDeclStmnt_VisitVarDeclStmnts.induct)
  case (1 a baseType structType st)
  show ?case
  proof (cases "baseType \<noteq> []")
    case True
    then show ?thesis
      by (simp add: insertReport_symbolRef split: option.splits)
  next
    case False
    show ?thesis
    proof (cases structType)
      case None
      with False show ?thesis using "1.prems" by (simp add: insertReport_Error)
    next
      case (Some str)
      with False show ?thesis using "1.IH"[OF False Some "1.prems"] by simp
    qed
  qed
next
  case (2 a name members st)
  let ?reg = "\<lambda>s. if name \<noteq> [] then Register name (ASTRef Types_Structure a)
                (\<lambda>symbol. Type symbol = Types_StructDecl) s else s"
  have g: "n \<le> length (reported (?reg st))"
    using "2.prems" reports_grow_typeInvariant
    by (auto simp: typeInvariant_def intro: order_trans)
  have "?reg (insertReport n e st) = insertReport n e (?reg st)"
    using "2.prems" by (simp add: insertReport_Register)
  then show ?case using "2.IH"[OF g] by simp
next
  case (3 a varType varDecls st)
  have step: "VisitVarType varType (insertReport n e st) =
      map_option (insertReport n e) (VisitVarType varType st)"
    by (rule "3.IH"[OF "3.prems"])
  show ?case
  proof (cases "VisitVarType varType st")
    case None
    then show ?thesis using step by simp
  next
    case (Some st1)
    note s1 = Some
    show ?thesis
    proof (cases "VisitVarDecls varDecls st1")
      case None
      then show ?thesis using step s1 by (simp add: insertReport_VarDecls)
    next
      case (Some st2)
      then show ?thesis
        using step s1
        by (simp add: insertReport_VarDecls insertReport_aliasName
            split: option.splits list.splits)
    qed
  qed
next
  case (4 st)
  show ?case by simp
next
  case (5 d ds st)
  show ?case
    unfolding VisitVarDeclStmnts.simps
  proof (rule bind_insertReport)
    show "VisitVarDeclStmnt d (insertReport n e st) =
        map_option (insertReport n e) (VisitVarDeclStmnt d st)"
      by (rule "5.IH"(1)[OF "5.prems"])
  next
    fix st1 assume a: "VisitVarDeclStmnt d st = Some st1"
    have "n \<le> length (reported st1)"
      using typeInvariant_Types(3)[OF reports_grow_typeInvariant a] "5.prems" by simp
    then show "VisitVarDeclStmnts ds (insertReport n e st1) =
        map_option (insertReport n e) (VisitVarDeclStmnts ds st1)"
      by (rule "5.IH"(2)[OF a])
  qed
qed

subsection \<open>Intrinsic tracking\<close>

lemma intrinsicFlags_Nil [simp]: "intrinsicFlags [] = {}"
  by (simp add: intrinsicFlags_def)

lemma intrinsicFlags_append [simp]:
  "intrinsicFlags (xs @ ys) = intrinsicFlags xs \<union> intrinsicFlags ys"
  by (auto simp: intrinsicFlags_def)

lemma intrinsicFlags_Cons: "intrinsicFlags (x # xs) = intrinsicFlags [x] \<union> intrinsicFlags xs"
  using intrinsicFlags_append[of "[x]" xs] by simp

lemma intrinsicMap_Interlocked:
  "intrinsicMap n = Some Interlocked \<longleftrightarrow>
     n \<in> {''InterlockedAdd'', ''InterlockedAnd'', ''InterlockedOr'', ''InterlockedXor'',
          ''InterlockedMin'', ''InterlockedMax'', ''InterlockedCompareExchange'',
          ''InterlockedExchange''}"
  by (simp add: intrinsicMap_def EstablishMaps_def)

lemma intrinsicMap_mul: "intrinsicMap ''mul'' = None"
  by (simp add: intrinsicMap_def EstablishMaps_def)

lemma flagsAdded_refl: "flagsAdded p {} st st"
  by (simp add: flagsAdded_def)

lemma flagsAdded_same:
  "program st' = program st \<Longrightarrow> programFlags st' = programFlags st \<Longrightarrow> flagsAdded p {} st st'"
  by (simp add: flagsAdded_def)

lemma flagsAdded_trans:
  "flagsAdded p F a b \<Longrightarrow> flagsAdded p G b c \<Longrightarrow> flagsAdded p (F \<union> G) a c"
  by (auto simp: flagsAdded_def fun_eq_iff)

lemma flagsAdded_trans_left:
  "flagsAdded p {} a b \<Longrightarrow> flagsAdded p G b c \<Longrightarrow> flagsAdded p G a c"
  using flagsAdded_trans[of p "{}" a b G c] by simp

lemma flagsAdded_trans_right:
  "flagsAdded p F a b \<Longrightarrow> flagsAdded p {} b c \<Longrightarrow> flagsAdded p F a c"
  using flagsAdded_trans[of p F a b "{}" c] by simp

lemma flagsAdded_program: "flagsAdded p F st st' \<Longrightarrow> program st = Some q \<Longrightarrow> program st' = Some q"
  by (simp add: flagsAdded_def)

lemma flagsAdded_call:
  assumes "(if n = ''mul'' then addProgramFlag Program_mulIntrinsicUsed st
         else case intrinsicMap n of None \<Rightarrow> Some st
              | Some Interlocked \<Rightarrow> addProgramFlag Program_interlockedIntrinsicsUsed st) = Some st1"
    and "program st = Some p"
  shows "flagsAdded p (intrinsicFlags [n]) st st1"
proof (cases "n = ''mul''")
  case True
  with assms show ?thesis
    by (auto simp: flagsAdded_def intrinsicFlags_def addProgramFlag_def intrinsicMap_mul)
next
  case False
  show ?thesis
  proof (cases "intrinsicMap n")
    case None
    with False assms show ?thesis
      by (simp add: flagsAdded_def intrinsicFlags_def)
  next
    case (Some c)
    then have "intrinsicMap n = Some Interlocked" by (cases c) simp
    with False assms show ?thesis
      by (auto simp: flagsAdded_def intrinsicFlags_def addProgramFlag_def)
  qed
qed

lemma flagsAdded_Exprs:
  shows "VisitVarIdent v st = Some st' \<Longrightarrow> program st = Some p \<Longrightarrow>
      flagsAdded p (intrinsicFlags (VarIdent_calls False v)) st st'"
    and "VisitFunctionCall c st = Some st' \<Longrightarrow> program st = Some p \<Longrightarrow>
      flagsAdded p (intrinsicFlags (FunctionCall_calls False c)) st st'"
    and "VisitExpr e st = Some st' \<Longrightarrow> program st = Some p \<Longrightarrow>
      flagsAdded p (intrinsicFlags (Expr_calls False e)) st st'"
    and "VisitExprs es st = Some st' \<Longrightarrow> program st = Some p \<Longrightarrow>
      flagsAdded p (intrinsicFlags (Exprs_calls False es)) st st'"
proof (induction v st and c st and e st and es st arbitrary: st' and st' and st' and st'
    rule: VisitVarIdent_VisitFunctionCall_VisitExpr_VisitExprs.induct)
  case (1 ident arrayIndices "next" st)
  from "1.prems"(1) obtain st1 where a: "VisitExprs arrayIndices st = Some st1"
    and b: "(case next of None \<Rightarrow> Some st1 | Some n \<Rightarrow> VisitVarIdent n st1) = Some st'"
    by (auto simp: bind_eq_Some_conv)
  have r1: "flagsAdded p (intrinsicFlags (Exprs_calls False arrayIndices)) st st1"
    using "1.IH"(1)[OF a "1.prems"(2)] .
  note p1 = flagsAdded_program[OF r1 "1.prems"(2)]
  show ?case
  proof (cases "next")
    case None
    then show ?thesis using b r1 by simp
  next
    case (Some n)
    then show ?thesis
      using flagsAdded_trans[OF r1 "1.IH"(2)[OF a Some _ p1]] b by simp
  qed
next
  case (2 name arguments st)
  from "2.prems"(1) obtain st1 where
    a: "(if FullVarIdent name = ''mul'' then addProgramFlag Program_mulIntrinsicUsed st
         else case intrinsicMap (FullVarIdent name) of None \<Rightarrow> Some st
              | Some Interlocked \<Rightarrow> addProgramFlag Program_interlockedIntrinsicsUsed st) = Some st1"
    and b: "VisitExprs arguments st1 = Some st'"
    by (auto simp: bind_eq_Some_conv)
  have r1: "flagsAdded p (intrinsicFlags [FullVarIdent name]) st st1"
    using flagsAdded_call[OF a "2.prems"(2)] .
  note p1 = flagsAdded_program[OF r1 "2.prems"(2)]
  show ?case
    using flagsAdded_trans[OF r1 "2.IH"[OF a b p1]]
    by (simp add: intrinsicFlags_Cons[of _ "Exprs_calls False arguments"])
next
  case (7 e es st)
  from "7.prems"(1) obtain st1 where a: "VisitExpr e st = Some st1"
    and b: "VisitExprs es st1 = Some st'"
    by (auto simp: bind_eq_Some_conv)
  note r1 = "7.IH"(1)[OF a "7.prems"(2)]
  note p1 = flagsAdded_program[OF r1 "7.prems"(2)]
  show ?case using flagsAdded_trans[OF r1 "7.IH"(2)[OF a b p1]] by simp
qed (simp_all add: flagsAdded_refl)

lemma flagsAdded_FunctionCalls:
  "VisitFunctionCalls cs st = Some st' \<Longrightarrow> program st = Some p \<Longrightarrow>
   flagsAdded p (intrinsicFlags (concat (map (FunctionCall_calls False) cs))) st st'"
proof (induction cs arbitrary: st)
  case Nil
  then show ?case by (simp add: flagsAdded_refl)
next
  case (Cons c cs)
  from Cons.prems(1) obtain st1 where a: "VisitFunctionCall c st = Some st1"
    and b: "VisitFunctionCalls cs st1 = Some st'"
    by (auto simp: bind_eq_Some_conv)
  note r1 = flagsAdded_Exprs(2)[OF a Cons.prems(2)]
  note p1 = flagsAdded_program[OF r1 Cons.prems(2)]
  show ?case using flagsAdded_trans[OF r1 Cons.IH[OF b p1]] by simp
qed

lemma flagsAdded_VarDecl:
  assumes V: "VisitVarDecl d st = Some st'" and P: "program st = Some p"
  shows "flagsAdded p (intrinsicFlags (VarDecl_calls False d)) st st'"
proof (cases d)
  case (VarDecl name arrayDims semantics initializer)
  from V obtain st1 where a: "VisitExprs arrayDims st = Some st1"
    and b: "(case initializer of None \<Rightarrow> Some st1 | Some e \<Rightarrow> VisitExpr e st1) = Some st'"
    using VisitVarDecl_result unfolding VarDecl by blast
  note r1 = flagsAdded_Exprs(4)[OF a P]
  note p1 = flagsAdded_program[OF r1 P]
  show ?thesis
  proof (cases initializer)
    case None
    then show ?thesis using b r1 by (simp add: VarDecl)
  next
    case (Some e)
    then show ?thesis
      using flagsAdded_trans[OF r1 flagsAdded_Exprs(3)[OF _ p1]] b by (simp add: VarDecl)
  qed
qed

lemma flagsAdded_VarDecls:
  "VisitVarDecls ds st = Some st' \<Longrightarrow> program st = Some p \<Longrightarrow>
   flagsAdded p (intrinsicFlags (concat (map (VarDecl_calls False) ds))) st st'"
proof (induction ds arbitrary: st)
  case Nil
  then show ?case by (simp add: flagsAdded_refl)
next
  case (Cons d ds)
  from Cons.prems(1) obtain st1 where a: "VisitVarDecl d st = Some st1"
    and b: "VisitVarDecls ds st1 = Some st'"
    by (auto simp: bind_eq_Some_conv)
  note r1 = flagsAdded_VarDecl[OF a Cons.prems(2)]
  note p1 = flagsAdded_program[OF r1 Cons.prems(2)]
  show ?case using flagsAdded_trans[OF r1 Cons.IH[OF b p1]] by simp
qed

lemma flagsAdded_Register: "flagsAdded p {} st (Register n a pr st)"
  by (simp add: flagsAdded_def Register_def Error_def split: sum.splits)

lemma flagsAdded_Types:
  shows "VisitVarType t st = Some st' \<Longrightarrow> program st = Some p \<Longrightarrow>
      flagsAdded p (intrinsicFlags (VarType_calls False t)) st st'"
    and "VisitStructure s st = Some st' \<Longrightarrow> program st = Some p \<Longrightarrow>
      flagsAdded p (intrinsicFlags (Structure_calls False s)) st st'"
    and "VisitVarDeclStmnt d st = Some st' \<Longrightarrow> program st = Some p \<Longrightarrow>
      flagsAdded p (intrinsicFlags (VarDeclStmnt_calls False d)) st st'"
    and "VisitVarDeclStmnts ds st = Some st' \<Longrightarrow> program st = Some p \<Longrightarrow>
      flagsAdded p (intrinsicFlags (VarDeclStmnts_calls False ds)) st st'"
proof (induction t st and s st and d st and ds st arbitrary: st' and st' and st' and st'
    rule: VisitVarType_VisitStructure_VisitVarDeclStmnt_VisitVarDeclStmnts.induct)
  case (1 a baseType structType st)
  show ?case
  proof (cases "baseType \<noteq> []")
    case True
    with "1.prems" show ?thesis
      by (auto simp: flagsAdded_def split: option.splits)
  next
    case False
    with "1.prems" "1.IH" show ?thesis
      by (auto simp: flagsAdded_def Error_def split: option.splits)
  qed
next
  case (2 a name members st)
  let ?st1 = "if name \<noteq> [] then Register name (ASTRef Types_Structure a)
                (\<lambda>symbol. Type symbol = Types_StructDecl) st else st"
  have r1: "flagsAdded p {} st ?st1" by (simp add: flagsAdded_Register flagsAdded_refl)
  note p1 = flagsAdded_program[OF r1 "2.prems"(2)]
  have "flagsAdded p (intrinsicFlags (VarDeclStmnts_calls False members)) ?st1 st'"
    using "2.IH"[OF _ p1] "2.prems"(1) by simp
  from flagsAdded_trans_left[OF r1 this] show ?case by simp
next
  case (3 a varType varDecls st)
  from VisitVarDeclStmnt_result[OF "3.prems"(1)] obtain st1
    where a: "VisitVarType varType st = Some st1" and b: "VisitVarDecls varDecls st1 = Some st'"
    by blast
  note r1 = "3.IH"[OF a "3.prems"(2)]
  note p1 = flagsAdded_program[OF r1 "3.prems"(2)]
  show ?case using flagsAdded_trans[OF r1 flagsAdded_VarDecls[OF b p1]] by simp
next
  case (4 st)
  then show ?case by (simp add: flagsAdded_refl)
next
  case (5 d ds st)
  from "5.prems"(1) obtain st1 where a: "VisitVarDeclStmnt d st = Some st1"
    and b: "VisitVarDeclStmnts ds st1 = Some st'"
    by (auto simp: bind_eq_Some_conv)
  note r1 = "5.IH"(1)[OF a "5.prems"(2)]
  note p1 = flagsAdded_program[OF r1 "5.prems"(2)]
  show ?case using flagsAdded_trans[OF r1 "5.IH"(2)[OF a b p1]] by simp
qed

lemma flagsAdded_Stmnts:
  shows "VisitStmnt s st = Some st' \<Longrightarrow> program st = Some p \<Longrightarrow>
      flagsAdded p (intrinsicFlags (Stmnt_calls False s)) st st'"
    and "VisitStmnts ss st = Some st' \<Longrightarrow> program st = Some p \<Longrightarrow>
      flagsAdded p (intrinsicFlags (Stmnts_calls False ss)) st st'"
    and "VisitCodeBlock b st = Some st' \<Longrightarrow> program st = Some p \<Longrightarrow>
      flagsAdded p (intrinsicFlags (CodeBlock_calls False b)) st st'"
proof (induction s st and ss st and b st arbitrary: st' and st' and st'
    rule: VisitStmnt_VisitStmnts_VisitCodeBlock.induct)
  case (1 d st)
  then show ?case using flagsAdded_Types(3) by simp
next
  case (2 instr st)
  then show ?case by (simp add: VisitCtrlTransferStmnt_def flagsAdded_refl)
next
  case (3 b st)
  then show ?case by simp
next
  case (4 e st)
  then show ?case using flagsAdded_Exprs(3) by simp
next
  case (5 subStmnts st)
  then show ?case by simp
next
  case (6 st)
  then show ?case by (simp add: flagsAdded_refl)
next
  case (7 s ss st)
  from "7.prems"(1) obtain st1 where a: "VisitStmnt s st = Some st1"
    and b: "VisitStmnts ss st1 = Some st'"
    by (auto simp: bind_eq_Some_conv)
  note r1 = "7.IH"(1)[OF a "7.prems"(2)]
  note p1 = flagsAdded_program[OF r1 "7.prems"(2)]
  show ?case using flagsAdded_trans[OF r1 "7.IH"(2)[OF a b p1]] by simp
next
  case (8 stmnts st)
  from "8.prems"(1) obtain st1 where a: "VisitStmnts stmnts (OpenScope st) = Some st1"
    and b: "st' = CloseScope st1"
    by (auto simp: bind_eq_Some_conv)
  have r0: "flagsAdded p {} st (OpenScope st)" by (simp add: flagsAdded_def OpenScope_def)
  note p0 = flagsAdded_program[OF r0 "8.prems"(2)]
  note r1 = "8.IH"[OF a p0]
  have r2: "flagsAdded p {} st1 st'" by (simp add: flagsAdded_def b CloseScope_def)
  from flagsAdded_trans_right[OF flagsAdded_trans_left[OF r0 r1] r2] show ?case by simp
qed

lemma programFlags_kept_decorInvariant:
  "decorInvariant (\<lambda>s s'. program s' = program s \<and> programFlags s' = programFlags s)"
  by (simp add: decorInvariant_def addStructureFlag_def)

lemma flagsAdded_GlobalDecl:
  assumes V: "VisitGlobalDecl d st = Some st'" and P: "program st = Some p"
  shows "flagsAdded p (intrinsicFlags (GlobalDecl_calls False d)) st st'"
proof (cases d)
  case (GlobalFunctionDecl f)
  obtain a name attribs returnType parameters codeBlock
    where f: "f = FunctionDecl a name attribs returnType parameters codeBlock" by (cases f)
  from V[unfolded GlobalFunctionDecl f VisitGlobalDecl.simps] obtain st1 st2 st3 st4 st6 where
    a: "VisitFunctionCalls attribs
       (Register name (ASTRef Types_FunctionDecl a) (\<lambda>symbol. Type symbol = Types_FunctionDecl) st)
       = Some st1"
    and b: "VisitVarType returnType st1 = Some st2"
    and c: "VisitVarDeclStmnts parameters st2 = Some st3"
    and d: "st4 = (if name = entryPoint st3 then
                  DecorateParameters parameters
                    (DecorateEntryInOut_VarType returnType False
                       (st3\<lparr>functionDeclFlags := (functionDeclFlags st3)
                          (a := insert FunctionDecl_isUsed
                             (insert FunctionDecl_isEntryPoint (functionDeclFlags st3 a)))\<rparr>))
                else st3)"
    and e: "(case codeBlock of
            None \<Rightarrow> Some (st4\<lparr>isInsideEntryPoint := (name = entryPoint st3)\<rparr>)
          | Some b \<Rightarrow> VisitCodeBlock b (st4\<lparr>isInsideEntryPoint := (name = entryPoint st3)\<rparr>))
         = Some st6"
    and g: "st' = st6\<lparr>isInsideEntryPoint := False\<rparr>"
    by (rule VisitFunctionDecl_SomeE)
  let ?st0 = "Register name (ASTRef Types_FunctionDecl a) (\<lambda>symbol. Type symbol = Types_FunctionDecl) st"
  let ?st5 = "st4\<lparr>isInsideEntryPoint := (name = entryPoint st3)\<rparr>"
  have r0: "flagsAdded p {} st ?st0" by (rule flagsAdded_Register)
  note p0 = flagsAdded_program[OF r0 P]
  note r1 = flagsAdded_FunctionCalls[OF a p0]
  note p1 = flagsAdded_program[OF r1 p0]
  note r2 = flagsAdded_Types(1)[OF b p1]
  note p2 = flagsAdded_program[OF r2 p1]
  note r3 = flagsAdded_Types(4)[OF c p2]
  note p3 = flagsAdded_program[OF r3 p2]
  have "program st4 = program st3 \<and> programFlags st4 = programFlags st3"
  proof (cases "name = entryPoint st3")
    case True
    let ?f = "st3\<lparr>functionDeclFlags := (functionDeclFlags st3)
                          (a := insert FunctionDecl_isUsed
                             (insert FunctionDecl_isEntryPoint (functionDeclFlags st3 a)))\<rparr>"
    let ?r = "DecorateEntryInOut_VarType returnType False ?f"
    have "program ?r = program ?f \<and> programFlags ?r = programFlags ?f"
      by (rule decorInvariant_DecorateEntryInOut_VarType[OF programFlags_kept_decorInvariant])
    moreover have "program (DecorateParameters parameters ?r) = program ?r \<and>
        programFlags (DecorateParameters parameters ?r) = programFlags ?r"
      by (rule decorInvariant_DecorateParameters[OF programFlags_kept_decorInvariant])
    ultimately show ?thesis unfolding d using True by simp
  next
    case False
    then show ?thesis unfolding d by simp
  qed
  then have r5: "flagsAdded p {} st3 ?st5" by (simp add: flagsAdded_def)
  note p5 = flagsAdded_program[OF r5 p3]
  have r6: "flagsAdded p (intrinsicFlags (case codeBlock of None \<Rightarrow> [] | Some b \<Rightarrow> CodeBlock_calls False b)) ?st5 st6"
    using e flagsAdded_Stmnts(3)[OF _ p5] by (cases codeBlock) (auto simp: flagsAdded_refl)
  have r7: "flagsAdded p {} st6 st'" by (simp add: flagsAdded_def g)
  have A: "flagsAdded p (intrinsicFlags (concat (map (FunctionCall_calls False) attribs)) \<union>
                     intrinsicFlags (VarType_calls False returnType)) st st2"
    using flagsAdded_trans[OF flagsAdded_trans_left[OF r0 r1] r2] .
  have B: "flagsAdded p (intrinsicFlags (VarDeclStmnts_calls False parameters) \<union>
      intrinsicFlags (case codeBlock of None \<Rightarrow> [] | Some b \<Rightarrow> CodeBlock_calls False b)) st2 st'"
    using flagsAdded_trans[OF flagsAdded_trans_right[OF r3 r5] flagsAdded_trans_right[OF r6 r7]] .
  from flagsAdded_trans[OF A B] show ?thesis
    unfolding GlobalFunctionDecl f by (simp add: Un_assoc)
next
  case (GlobalBufferDecl b)
  obtain a bufferType members where b: "b = BufferDecl a bufferType members" by (cases b)
  let ?st1 = "if bufferType \<noteq> ''cbuffer'' then
          Error (''buffer type '' @ [CHR 0x22] @ bufferType @ [CHR 0x22] @ '' currently not supported'')
            (Some a) st
        else st"
  have r1: "flagsAdded p {} st ?st1" by (simp add: flagsAdded_def Error_def)
  note p1 = flagsAdded_program[OF r1 P]
  have "flagsAdded p (intrinsicFlags (VarDeclStmnts_calls False members)) ?st1 st'"
    using V flagsAdded_Types(4)[OF _ p1] unfolding GlobalBufferDecl b by simp
  from flagsAdded_trans_left[OF r1 this] show ?thesis unfolding GlobalBufferDecl b by simp
next
  case (GlobalStructDecl s)
  obtain str where s: "s = StructDecl str" by (cases s)
  show ?thesis
    using V flagsAdded_Types(2)[OF _ P] unfolding GlobalStructDecl s by simp
next
  case OtherGlobalDecl
  then show ?thesis using V by (simp add: flagsAdded_refl)
qed

lemma flagsAdded_GlobalDecls:
  "VisitGlobalDecls ds st = Some st' \<Longrightarrow> program st = Some p \<Longrightarrow>
   flagsAdded p (intrinsicFlags (concat (map (GlobalDecl_calls False) ds))) st st'"
proof (induction ds arbitrary: st)
  case Nil
  then show ?case by (simp add: flagsAdded_refl)
next
  case (Cons d ds)
  from Cons.prems(1) obtain st1 where a: "VisitGlobalDecl d st = Some st1"
    and b: "VisitGlobalDecls ds st1 = Some st'"
    by (auto simp: bind_eq_Some_conv)
  note r1 = flagsAdded_GlobalDecl[OF a Cons.prems(2)]
  note p1 = flagsAdded_program[OF r1 Cons.prems(2)]
  show ?case using flagsAdded_trans[OF r1 Cons.IH[OF b p1]] by simp
qed

text \<open>
  C5 (as stated, the claim fails for a call inside the name of another call).
  \<^verbatim>\<open>VisitFunctionCall\<close> visits the arguments of a call and never its name, so the call of
  \<^verbatim>\<open>mul\<close> in \<open>programCallInName\<close> is a function call of the program that no visit
  reaches: the flag stays clear.
\<close>

theorem call_in_name_not_tracked_counterexample:
  "''mul'' \<in> set (Program_calls True programCallInName) \<and>
   programFlags newAnalyzer 0 = {} \<and>
   DecorateAST newAnalyzer (Some programCallInName) ''main'' 0 0 =
     Some (True, newAnalyzer\<lparr>entryPoint := ''main'', program := Some 0,
                   symTable := [[''f'' \<mapsto> ASTRef Types_FunctionDecl 1]]\<rparr>)"
  by (simp add: analyzer_defs programCallInName_def)

text \<open>
  C5 (amended). After a call of \<^verbatim>\<open>DecorateAST\<close> that returns, the program's
  \<^verbatim>\<open>mulIntrinsicUsed\<close> flag is set if and only if it was set before the call or some
  function call that the walk visits (every call of the program but those inside the
  array indices of the name of another call, and those inside an inline structure of a
  type that also has a base type name) has the full name \<^verbatim>\<open>mul\<close>; the
  \<^verbatim>\<open>interlockedIntrinsicsUsed\<close> flag is set if and only if it was set before or the full
  name of such a call is one of the eight \<^verbatim>\<open>Interlocked\<close> names. Calls of other names set
  neither flag, and the flags of no other program change.
\<close>

theorem intrinsic_flags_tracked:
  assumes "DecorateAST st (Some prog) entry target version = Some (ok, st')"
  shows "(Program_mulIntrinsicUsed \<in> programFlags st' (Program_address prog) \<longleftrightarrow>
            Program_mulIntrinsicUsed \<in> programFlags st (Program_address prog) \<or>
            ''mul'' \<in> set (Program_calls False prog)) \<and>
         (Program_interlockedIntrinsicsUsed \<in> programFlags st' (Program_address prog) \<longleftrightarrow>
            Program_interlockedIntrinsicsUsed \<in> programFlags st (Program_address prog) \<or>
            (\<exists>n \<in> set (Program_calls False prog).
               n \<in> {''InterlockedAdd'', ''InterlockedAnd'', ''InterlockedOr'', ''InterlockedXor'',
                    ''InterlockedMin'', ''InterlockedMax'', ''InterlockedCompareExchange'',
                    ''InterlockedExchange''})) \<and>
         (\<forall>q. q \<noteq> Program_address prog \<longrightarrow> programFlags st' q = programFlags st q)"
proof -
  obtain a globalDecls where p: "prog = Program a globalDecls" by (cases prog)
  let ?st0 = "st\<lparr>entryPoint := entry, shaderTarget := target, shaderVersion := version,
                 hasErrors := False, program := Some a\<rparr>"
  from assms have V: "VisitGlobalDecls globalDecls ?st0 = Some st'"
    by (auto simp: DecorateAST_def p bind_eq_Some_conv)
  have "program ?st0 = Some a" by simp
  from flagsAdded_GlobalDecls[OF V this]
  have F: "programFlags st' = (programFlags st)(a := programFlags st a \<union>
      intrinsicFlags (Program_calls False prog))"
    by (simp add: flagsAdded_def p)
  show ?thesis
    unfolding F
    by (auto simp: p intrinsicFlags_def intrinsicMap_Interlocked split: if_splits)
qed

theorem intrinsic_flags_tracked_witness:
  "\<exists>ok st'. DecorateAST newAnalyzer (Some programIntrinsics) ''main'' 0 0 = Some (ok, st') \<and>
     Program_mulIntrinsicUsed \<in> programFlags st' 0 \<and>
     Program_interlockedIntrinsicsUsed \<in> programFlags st' 0 \<and>
     programFlags st' 1 = {}"
proof -
  have "map_option fst (DecorateAST newAnalyzer (Some programIntrinsics) ''main'' 0 0) = Some True"
    by (simp add: analyzer_defs programIntrinsics_def)
  then obtain ok st' where
    D: "DecorateAST newAnalyzer (Some programIntrinsics) ''main'' 0 0 = Some (ok, st')"
    by auto
  have c: "Program_calls False programIntrinsics = [''mul'', ''InterlockedAdd'', ''sin'']"
    by (simp add: programIntrinsics_def)
  have a: "Program_address programIntrinsics = 0" by (simp add: programIntrinsics_def)
  have n: "programFlags newAnalyzer 1 = {}" by (simp add: newAnalyzer_def)
  from intrinsic_flags_tracked[OF D] show ?thesis
    unfolding c a using D n by auto
qed

subsection \<open>Entry point selection\<close>




lemma entryPoint_kept_decorInvariant:
  "decorInvariant (\<lambda>s s'. entryPoint s' = entryPoint s)"
  by (simp add: decorInvariant_def addStructureFlag_def)






lemma symbolRef_kept_exprInvariant: "exprInvariant (\<lambda>s s'. symbolRef s' = symbolRef s)"
  by (simp add: exprInvariant_def)


lemma refsKept_same: "symbolRef st' = symbolRef st \<Longrightarrow> refsKept A st st'"
  by (simp add: refsKept_def)

lemma refsKept_trans: "refsKept A a b \<Longrightarrow> refsKept B b c \<Longrightarrow> refsKept (A \<union> B) a c"
  unfolding refsKept_def by (metis Un_iff)

lemma refsKept_mono: "refsKept A a b \<Longrightarrow> A \<subseteq> B \<Longrightarrow> refsKept B a b"
  unfolding refsKept_def by blast

lemma refsKept_Register: "refsKept A st (Register n a p st)"
  by (simp add: refsKept_def Register_def Error_def split: sum.splits)

lemma refsKept_Types:
  shows "VisitVarType t st = Some st' \<Longrightarrow> refsKept (set (VarType_varTypes t)) st st'"
    and "VisitStructure s st = Some st' \<Longrightarrow> refsKept (set (Structure_varTypes s)) st st'"
    and "VisitVarDeclStmnt d st = Some st' \<Longrightarrow> refsKept (set (VarDeclStmnt_varTypes d)) st st'"
    and "VisitVarDeclStmnts ds st = Some st' \<Longrightarrow> refsKept (set (VarDeclStmnts_varTypes ds)) st st'"
proof (induction t st and s st and d st and ds st arbitrary: st' and st' and st' and st'
    rule: VisitVarType_VisitStructure_VisitVarDeclStmnt_VisitVarDeclStmnts.induct)
  case (1 a baseType structType st)
  show ?case
  proof (cases "baseType \<noteq> []")
    case True
    with "1.prems" show ?thesis
      by (auto simp: refsKept_def split: option.splits)
  next
    case False
    show ?thesis
    proof (cases structType)
      case None
      with False "1.prems" show ?thesis by (auto simp: refsKept_def Error_def)
    next
      case (Some str)
      have "refsKept (set (Structure_varTypes str)) st st'"
        using "1.IH"[OF False Some] "1.prems" False Some by simp
      then show ?thesis using Some by (auto intro: refsKept_mono)
    qed
  qed
next
  case (2 a name members st)
  let ?st1 = "if name \<noteq> [] then Register name (ASTRef Types_Structure a)
                (\<lambda>symbol. Type symbol = Types_StructDecl) st else st"
  have r1: "refsKept {} st ?st1" by (simp add: refsKept_Register refsKept_same)
  have "refsKept (set (VarDeclStmnts_varTypes members)) ?st1 st'"
    using "2.IH" "2.prems" by simp
  from refsKept_trans[OF r1 this] show ?case by simp
next
  case (3 a varType varDecls st)
  from VisitVarDeclStmnt_result[OF "3.prems"] obtain st1
    where a: "VisitVarType varType st = Some st1" and b: "VisitVarDecls varDecls st1 = Some st'"
    by blast
  have "refsKept {} st1 st'"
    using exprInvariant_VarDecls[OF symbolRef_kept_exprInvariant b] by (rule refsKept_same)
  from refsKept_trans[OF "3.IH"[OF a] this] show ?case by simp
next
  case (4 st)
  then show ?case by (simp add: refsKept_same)
next
  case (5 d ds st)
  from "5.prems" obtain st1 where a: "VisitVarDeclStmnt d st = Some st1"
    and b: "VisitVarDeclStmnts ds st1 = Some st'"
    by (auto simp: bind_eq_Some_conv)
  show ?case using refsKept_trans[OF "5.IH"(1)[OF a] "5.IH"(2)[OF a b]] by simp
qed


















subsection \<open>The members of a buffer declaration\<close>

lemma fold_bind_None: "fold (\<lambda>m r. r \<bind> f m) ms None = None"
  by (induction ms) simp_all

lemma VisitVarDeclStmnts_fold:
  "VisitVarDeclStmnts ms st = fold (\<lambda>member r. r \<bind> VisitVarDeclStmnt member) ms (Some st)"
proof (induction ms arbitrary: st)
  case Nil
  show ?case by simp
next
  case (Cons m ms)
  show ?case
    by (cases "VisitVarDeclStmnt m st") (simp_all add: fold_bind_None Cons.IH)
qed

lemma VisitVarDeclStmnts_append:
  "VisitVarDeclStmnts (xs @ ys) st = VisitVarDeclStmnts xs st \<bind> VisitVarDeclStmnts ys"
proof (induction xs arbitrary: st)
  case Nil
  show ?case by simp
next
  case (Cons x xs)
  show ?case by (cases "VisitVarDeclStmnt x st") (simp_all add: Cons.IH)
qed

lemma reports_kept_exprInvariant: "exprInvariant (\<lambda>s s'. reported s' = reported s)"
  by (simp add: exprInvariant_def)

lemma reports_kept_typeInvariant:
  "typeInvariant (\<lambda>s s'. set (reported s) \<subseteq> set (reported s'))"
  unfolding typeInvariant_def exprInvariant_def
  by (auto simp: Error_def Register_def split: sum.splits)

lemma missing_type_reported:
  "VisitVarDeclStmnts ms st = Some st' \<Longrightarrow>
   VarDeclStmnt ma (VarType ta [] None) ds \<in> set ms \<Longrightarrow>
   (''missing variable type'', Some ta) \<in> set (reported st')"
proof (induction ms arbitrary: st)
  case Nil
  then show ?case by simp
next
  case (Cons m ms)
  from Cons.prems(1) obtain st1 where a: "VisitVarDeclStmnt m st = Some st1"
    and b: "VisitVarDeclStmnts ms st1 = Some st'"
    by (auto simp: bind_eq_Some_conv)
  show ?case
  proof (cases "m = VarDeclStmnt ma (VarType ta [] None) ds")
    case True
    from VisitVarDeclStmnt_result[OF a[unfolded True]] obtain st0
      where c: "VisitVarType (VarType ta [] None) st = Some st0"
        and d: "VisitVarDecls ds st0 = Some st1" by blast
    from c have "(''missing variable type'', Some ta) \<in> set (reported st0)"
      by (auto simp: Error_def)
    then have "(''missing variable type'', Some ta) \<in> set (reported st1)"
      using exprInvariant_VarDecls[OF reports_kept_exprInvariant d] by simp
    then show ?thesis
      using typeInvariant_Types(4)[OF reports_kept_typeInvariant b] by blast
  next
    case False
    with Cons.prems(2) have "VarDeclStmnt ma (VarType ta [] None) ds \<in> set ms" by simp
    from Cons.IH[OF b this] show ?thesis .
  qed
qed

lemma member_type_resolved:
  assumes V: "VisitVarDeclStmnts (before @ VarDeclStmnt ma (VarType ta baseType structType) ds # after) st
              = Some st'"
    and B: "VisitVarDeclStmnts before st = Some st1"
    and N: "baseType \<noteq> []"
    and F: "Fetch st1 baseType = Some symbol"
    and D: "ta \<notin> set (VarDeclStmnts_varTypes after)"
  shows "symbolRef st' ta = Some symbol"
proof -
  from V B obtain st2 where
    a: "VisitVarDeclStmnt (VarDeclStmnt ma (VarType ta baseType structType) ds) st1 = Some st2"
    and b: "VisitVarDeclStmnts after st2 = Some st'"
    by (auto simp: VisitVarDeclStmnts_append bind_eq_Some_conv)
  from VisitVarDeclStmnt_result[OF a] obtain st0
    where c: "VisitVarType (VarType ta baseType structType) st1 = Some st0"
      and d: "VisitVarDecls ds st0 = Some st2" by blast
  from c N F have "symbolRef st0 ta = Some symbol" by auto
  then have "symbolRef st2 ta = Some symbol"
    using exprInvariant_VarDecls[OF symbolRef_kept_exprInvariant d] by simp
  then show ?thesis
    using refsKept_Types(4)[OF b] D by (auto simp: refsKept_def)
qed

text \<open>
  C8. Visiting a \<^verbatim>\<open>BufferDecl\<close> whose kind is not \<^verbatim>\<open>cbuffer\<close> reports exactly one error
  for the node and then visits every member, one after the other in order, each in the
  state that the error and the members before it have left. The visit has undefined
  behaviour exactly when the same buffer of kind \<^verbatim>\<open>cbuffer\<close> has, and otherwise gives the
  state of the \<^verbatim>\<open>cbuffer\<close> visit (every decoration, every symbol, every report of a member)
  with the error flag set and the one report of the buffer ahead of the reports of the
  members. For kind \<^verbatim>\<open>cbuffer\<close> the visit is the visit of the members alone: the node
  reports nothing. Whatever the kind, when the visit returns every member that has neither
  a base type name nor an inline structure is reported as "missing variable type", and
  the type of a member with a base type name refers to the symbol that \<open>Fetch\<close> returned
  for the name when the member was visited (after the members before it; the nodes after
  it are other objects).
\<close>

theorem VisitBufferDecl_unsupported_kind:
  "(bufferType \<noteq> ''cbuffer'' \<longrightarrow>
      VisitBufferDecl (BufferDecl a bufferType members) st =
        map_option
          (insertReport (length (reported st))
             (''buffer type '' @ [CHR 0x22] @ bufferType @ [CHR 0x22] @ '' currently not supported'',
              Some a))
          (VisitBufferDecl (BufferDecl a ''cbuffer'' members) st) \<and>
      VisitBufferDecl (BufferDecl a bufferType members) st =
        fold (\<lambda>member r. r \<bind> VisitVarDeclStmnt member) members
          (Some (st\<lparr>hasErrors := True,
                    reported := reported st @
                      [(''buffer type '' @ [CHR 0x22] @ bufferType @ [CHR 0x22] @
                          '' currently not supported'', Some a)]\<rparr>))) \<and>
   VisitBufferDecl (BufferDecl a ''cbuffer'' members) st =
     fold (\<lambda>member r. r \<bind> VisitVarDeclStmnt member) members (Some st) \<and>
   (\<forall>st'. VisitBufferDecl (BufferDecl a bufferType members) st = Some st' \<longrightarrow>
      (\<forall>ma ta ds. VarDeclStmnt ma (VarType ta [] None) ds \<in> set members \<longrightarrow>
         (''missing variable type'', Some ta) \<in> set (reported st')) \<and>
      (\<forall>before ma ta baseType structType ds after st1 symbol.
         members = before @ VarDeclStmnt ma (VarType ta baseType structType) ds # after \<and>
         VisitBufferDecl (BufferDecl a bufferType before) st = Some st1 \<and>
         baseType \<noteq> [] \<and> Fetch st1 baseType = Some symbol \<and>
         ta \<notin> set (VarDeclStmnts_varTypes after) \<longrightarrow>
         symbolRef st' ta = Some symbol))"
proof -
  let ?e = "(''buffer type '' @ [CHR 0x22] @ bufferType @ [CHR 0x22] @ '' currently not supported'',
              Some a)"
  let ?st0 = "if bufferType \<noteq> ''cbuffer'' then Error (fst ?e) (snd ?e) st else st"
  have E: "Error (fst ?e) (snd ?e) st = insertReport (length (reported st)) ?e st"
    by (simp add: Error_def insertReport_def)
  have V: "VisitBufferDecl (BufferDecl a bufferType ms) st = VisitVarDeclStmnts ms ?st0" for ms
    by simp
  have one: "bufferType \<noteq> ''cbuffer'' \<longrightarrow>
      VisitBufferDecl (BufferDecl a bufferType members) st =
        map_option (insertReport (length (reported st)) ?e)
          (VisitBufferDecl (BufferDecl a ''cbuffer'' members) st)"
    using E insertReport_Types(4)[of "length (reported st)" st members ?e] by simp
  have two: "bufferType \<noteq> ''cbuffer'' \<longrightarrow>
      VisitBufferDecl (BufferDecl a bufferType members) st =
        fold (\<lambda>member r. r \<bind> VisitVarDeclStmnt member) members
          (Some (st\<lparr>hasErrors := True, reported := reported st @ [?e]\<rparr>))"
    by (simp add: VisitVarDeclStmnts_fold Error_def)
  have three: "VisitBufferDecl (BufferDecl a ''cbuffer'' members) st =
     fold (\<lambda>member r. r \<bind> VisitVarDeclStmnt member) members (Some st)"
    by (simp add: VisitVarDeclStmnts_fold)
  have four: "(''missing variable type'', Some ta) \<in> set (reported st')"
    if "VisitBufferDecl (BufferDecl a bufferType members) st = Some st'"
      "VarDeclStmnt ma (VarType ta [] None) ds \<in> set members" for st' ma ta ds
    using missing_type_reported[OF that(1)[unfolded V] that(2)] .
  have five: "symbolRef st' ta = Some symbol"
    if "VisitBufferDecl (BufferDecl a bufferType members) st = Some st'"
      "members = before @ VarDeclStmnt ma (VarType ta baseType structType) ds # after"
      "VisitBufferDecl (BufferDecl a bufferType before) st = Some st1"
      "baseType \<noteq> []" "Fetch st1 baseType = Some symbol"
      "ta \<notin> set (VarDeclStmnts_varTypes after)"
    for st' before ma ta baseType structType ds after st1 symbol
    using member_type_resolved[OF that(1)[unfolded V that(2)] that(3)[unfolded V] that(4,5,6)] .
  have first: "bufferType \<noteq> ''cbuffer'' \<longrightarrow>
      VisitBufferDecl (BufferDecl a bufferType members) st =
        map_option (insertReport (length (reported st)) ?e)
          (VisitBufferDecl (BufferDecl a ''cbuffer'' members) st) \<and>
      VisitBufferDecl (BufferDecl a bufferType members) st =
        fold (\<lambda>member r. r \<bind> VisitVarDeclStmnt member) members
          (Some (st\<lparr>hasErrors := True, reported := reported st @ [?e]\<rparr>))"
    using one two by (intro impI conjI) (erule (1) mp)+
  have last: "\<forall>st'. VisitBufferDecl (BufferDecl a bufferType members) st = Some st' \<longrightarrow>
      (\<forall>ma ta ds. VarDeclStmnt ma (VarType ta [] None) ds \<in> set members \<longrightarrow>
         (''missing variable type'', Some ta) \<in> set (reported st')) \<and>
      (\<forall>before ma ta baseType structType ds after st1 symbol.
         members = before @ VarDeclStmnt ma (VarType ta baseType structType) ds # after \<and>
         VisitBufferDecl (BufferDecl a bufferType before) st = Some st1 \<and>
         baseType \<noteq> [] \<and> Fetch st1 baseType = Some symbol \<and>
         ta \<notin> set (VarDeclStmnts_varTypes after) \<longrightarrow>
         symbolRef st' ta = Some symbol)"
  proof (intro allI impI conjI)
    fix st' ma ta ds
    assume "VisitBufferDecl (BufferDecl a bufferType members) st = Some st'"
      and "VarDeclStmnt ma (VarType ta [] None) ds \<in> set members"
    then show "(''missing variable type'', Some ta) \<in> set (reported st')" by (rule four)
  next
    fix st' before ma ta baseType structType ds after st1 symbol
    assume v: "VisitBufferDecl (BufferDecl a bufferType members) st = Some st'"
      and h: "members = before @ VarDeclStmnt ma (VarType ta baseType structType) ds # after \<and>
         VisitBufferDecl (BufferDecl a bufferType before) st = Some st1 \<and>
         baseType \<noteq> [] \<and> Fetch st1 baseType = Some symbol \<and>
         ta \<notin> set (VarDeclStmnts_varTypes after)"
    from h have h1: "members = before @ VarDeclStmnt ma (VarType ta baseType structType) ds # after"
      and h2: "VisitBufferDecl (BufferDecl a bufferType before) st = Some st1"
      and h3: "baseType \<noteq> []" and h4: "Fetch st1 baseType = Some symbol"
      and h5: "ta \<notin> set (VarDeclStmnts_varTypes after)"
      by simp_all
    show "symbolRef st' ta = Some symbol" by (rule five[OF v h1 h2 h3 h4 h5])
  qed
  from first three last show ?thesis by (intro conjI)
qed


theorem VisitBufferDecl_unsupported_kind_witness:
  "VisitBufferDecl (BufferDecl 30 ''tbuffer'' tracedMembers) outerScope =
     Some (outerScope\<lparr>hasErrors := True,
             reported :=
               [(''buffer type '' @ [CHR 0x22] @ ''tbuffer'' @ [CHR 0x22] @ '' currently not supported'',
                 Some 30),
                (''missing variable type'', Some 34)],
             symbolRef := (symbolRef outerScope)(32 \<mapsto> ASTRef Types_Structure 2)\<rparr>) \<and>
   VisitBufferDecl (BufferDecl 30 ''cbuffer'' tracedMembers) outerScope =
     Some (outerScope\<lparr>hasErrors := True,
             reported := [(''missing variable type'', Some 34)],
             symbolRef := (symbolRef outerScope)(32 \<mapsto> ASTRef Types_Structure 2)\<rparr>) \<and>
   VisitBufferDecl (BufferDecl 30 ''tbuffer'' tracedMembers) outerScope =
     map_option
       (insertReport (length (reported outerScope))
          (''buffer type '' @ [CHR 0x22] @ ''tbuffer'' @ [CHR 0x22] @ '' currently not supported'',
           Some 30))
       (VisitBufferDecl (BufferDecl 30 ''cbuffer'' tracedMembers) outerScope)"
proof -
  let ?st' = "outerScope\<lparr>hasErrors := True,
             reported :=
               [(''buffer type '' @ [CHR 0x22] @ ''tbuffer'' @ [CHR 0x22] @ '' currently not supported'',
                 Some 30),
                (''missing variable type'', Some 34)],
             symbolRef := (symbolRef outerScope)(32 \<mapsto> ASTRef Types_Structure 2)\<rparr>"
  note T = VisitBufferDecl_unsupported_kind[where bufferType="''tbuffer''" and a=30
      and st=outerScope and members=tracedMembers]
  have k: "''tbuffer'' \<noteq> ''cbuffer''" by simp
  note one = T[THEN conjunct1, THEN mp, OF k, THEN conjunct1]
  have c: "VisitBufferDecl (BufferDecl 30 ''cbuffer'' tracedMembers) outerScope =
     Some (outerScope\<lparr>hasErrors := True,
             reported := [(''missing variable type'', Some 34)],
             symbolRef := (symbolRef outerScope)(32 \<mapsto> ASTRef Types_Structure 2)\<rparr>)"
    by (simp add: tracedMembers_def outerScope_def newAnalyzer_def Fetch_def Error_def
        VisitVarSemantic_def)
  have "VisitBufferDecl (BufferDecl 30 ''tbuffer'' tracedMembers) outerScope = Some ?st'"
    unfolding one c by (simp add: insertReport_def outerScope_def newAnalyzer_def)
  with one c show ?thesis by simp
qed

end
